theory Spec2Isabelle
  imports Main
begin

section \<open>Values\<close>

text \<open>
  The trees the library walks are JSON-shaped: a scalar (None, a boolean, an integer, a
  string), a list of values, or a dict from string keys to values. A dict is an association
  list in insertion order; its keys are distinct. Floating point numbers are left out.
  A string is a list of characters with code points below 256.
\<close>

datatype pyval =
    PNone
  | PBool bool
  | PInt int
  | PStr string
  | PList "pyval list"
  | PDict "(string \<times> pyval) list"

text \<open>
  The exceptions the code can raise. \<open>NonStringKey\<close> is no exception of Python: it marks
  the one operation that would leave the values above, storing an integer key in a dict.
\<close>

datatype pyerr = ValueError | TypeError | AttributeError | IndexError | KeyError | NonStringKey

text \<open>A subscript or a \<open>.get\<close> argument: a string, or an integer once \<open>int(_key)\<close> succeeded.\<close>

datatype pykey = KStr string | KInt int

text \<open>\<open>traversable(value)\<close>: \<open>type(value) in [list, dict]\<close>.\<close>

fun traversable :: "pyval \<Rightarrow> bool" where
  "traversable (PList xs) = True"
| "traversable (PDict kvs) = True"
| "traversable v = False"

text \<open>\<open>type(value) == list\<close> and \<open>type(value) == dict\<close>.\<close>

fun is_list :: "pyval \<Rightarrow> bool" where
  "is_list (PList xs) = True"
| "is_list v = False"

fun is_dict :: "pyval \<Rightarrow> bool" where
  "is_dict (PDict kvs) = True"
| "is_dict v = False"

text \<open>Python's truth value of a raw value (\<open>bool(v)\<close>, \<open>not v\<close>).\<close>

fun py_truthy :: "pyval \<Rightarrow> bool" where
  "py_truthy PNone = False"
| "py_truthy (PBool b) = b"
| "py_truthy (PInt i) = (i \<noteq> 0)"
| "py_truthy (PStr s) = (s \<noteq> [])"
| "py_truthy (PList xs) = (xs \<noteq> [])"
| "py_truthy (PDict kvs) = (kvs \<noteq> [])"

text \<open>
  Python's \<open>==\<close> on raw values: booleans compare with integers as 0 and 1, lists
  position by position, dicts key by key whatever the insertion order.
\<close>

fun py_eq :: "pyval \<Rightarrow> pyval \<Rightarrow> bool" where
  "py_eq PNone PNone = True"
| "py_eq (PBool a) (PBool b) = (a = b)"
| "py_eq (PBool a) (PInt j) = ((if a then 1 else 0) = j)"
| "py_eq (PInt i) (PBool b) = (i = (if b then 1 else 0))"
| "py_eq (PInt i) (PInt j) = (i = j)"
| "py_eq (PStr s) (PStr t) = (s = t)"
| "py_eq (PList xs) (PList ys) = list_all2 py_eq xs ys"
| "py_eq (PDict a) (PDict b) =
     (length a = length b \<and>
      list_all (\<lambda>(k, v). case map_of b k of None \<Rightarrow> False | Some w \<Rightarrow> py_eq v w) a)"
| "py_eq v w = False"

section \<open>Strings: replace, split, int\<close>

text \<open>
  \<open>s.replace(old, new)\<close>: the occurrences of \<open>old\<close> are found from the left and do not
  overlap. With an empty \<open>old\<close>, \<open>new\<close> is put before every character and at the end.
\<close>

function str_replace :: "string \<Rightarrow> string \<Rightarrow> string \<Rightarrow> string" where
  "str_replace old new [] = (if old = [] then new else [])"
| "str_replace old new (c # cs) =
     (if old = [] then new @ c # str_replace old new cs
      else if take (length old) (c # cs) = old
        then new @ str_replace old new (drop (length old) (c # cs))
      else c # str_replace old new cs)"
  by pat_completeness auto
termination
  by (relation "measure (\<lambda>(old, new, s). length s)") auto

text \<open>\<open>s.split(sep)\<close> for a separator of one character.\<close>

fun str_split :: "char \<Rightarrow> string \<Rightarrow> string list" where
  "str_split sep [] = [[]]"
| "str_split sep (c # cs) =
     (if c = sep then [] # str_split sep cs
      else (case str_split sep cs of
              w # ws \<Rightarrow> (c # w) # ws
            | [] \<Rightarrow> [[c]]))"

definition placeholder :: string where
  "placeholder = ''KQypbNUMED''"

text \<open>
  \<^verbatim>\<open>
  def split_escaped(path):
      return [k.replace('KQypbNUMED', '.') for
              k in path.replace('..', 'KQypbNUMED').split('.')]
  \<close>
\<close>

definition split_escaped :: "string \<Rightarrow> string list" where
  "split_escaped path =
     map (str_replace placeholder ''.'')
       (str_split (CHR ''.'') (str_replace ''..'' placeholder path))"

text \<open>
  \<open>int(s)\<close> on a string, \<open>None\<close> standing for ValueError: white space is stripped at
  both ends (tab, line feed, vertical tab, form feed, carriage return, space, and the two
  spaces above 127, next line and no-break space), then an optional sign, then decimal
  digits, where single underscores may stand between digits. A string of more than 4300
  digits is a ValueError as well (the default limit of Python 3.11 and later).
\<close>

definition is_space :: "char \<Rightarrow> bool" where
  "is_space c = ((of_char c :: nat) \<in> set [9, 10, 11, 12, 13, 32, 133, 160])"

definition is_digit :: "char \<Rightarrow> bool" where
  "is_digit c = (48 \<le> (of_char c :: nat) \<and> (of_char c :: nat) \<le> 57)"

definition digit_val :: "char \<Rightarrow> int" where
  "digit_val c = int (of_char c) - 48"

fun parse_digits :: "int \<Rightarrow> string \<Rightarrow> int option" where
  "parse_digits acc [] = Some acc"
| "parse_digits acc [c] = (if is_digit c then Some (acc * 10 + digit_val c) else None)"
| "parse_digits acc (c # d # ds) =
     (if is_digit c then parse_digits (acc * 10 + digit_val c) (d # ds)
      else if c = CHR ''_'' \<and> is_digit d then parse_digits (acc * 10 + digit_val d) ds
      else None)"

definition parse_unsigned :: "string \<Rightarrow> int option" where
  "parse_unsigned s =
     (case s of
        [] \<Rightarrow> None
      | c # cs \<Rightarrow> if is_digit c then parse_digits (digit_val c) cs else None)"

definition strip :: "string \<Rightarrow> string" where
  "strip s = dropWhile is_space (rev (dropWhile is_space (rev s)))"

definition py_int :: "string \<Rightarrow> int option" where
  "py_int s =
     (if length (filter is_digit (strip s)) > 4300 then None
      else case strip s of
        [] \<Rightarrow> None
      | c # cs \<Rightarrow>
          if c = CHR ''-'' then map_option uminus (parse_unsigned cs)
          else if c = CHR ''+'' then parse_unsigned cs
          else parse_unsigned (c # cs))"

section \<open>Dicts and lists\<close>

text \<open>\<open>d[k] = v\<close>: an existing key keeps its place, a new key goes last.\<close>

fun dict_set :: "(string \<times> pyval) list \<Rightarrow> string \<Rightarrow> pyval \<Rightarrow> (string \<times> pyval) list" where
  "dict_set [] k v = [(k, v)]"
| "dict_set ((k', v') # kvs) k v =
     (if k' = k then (k, v) # kvs else (k', v') # dict_set kvs k v)"

text \<open>\<open>del d[k]\<close> on a key that is present.\<close>

fun dict_del :: "(string \<times> pyval) list \<Rightarrow> string \<Rightarrow> (string \<times> pyval) list" where
  "dict_del [] k = []"
| "dict_del ((k', v') # kvs) k = (if k' = k then kvs else (k', v') # dict_del kvs k)"

text \<open>\<open>d[k]\<close> where the code has made sure that the key is present.\<close>

definition dict_item :: "(string \<times> pyval) list \<Rightarrow> string \<Rightarrow> pyval" where
  "dict_item kvs k = (case map_of kvs k of Some v \<Rightarrow> v | None \<Rightarrow> PNone)"

text \<open>
  The position a list subscript \<open>i\<close> reads or writes in a list of length \<open>n\<close>; negative
  subscripts count from the end, and \<open>None\<close> stands for IndexError.
\<close>

definition list_pos :: "nat \<Rightarrow> int \<Rightarrow> nat option" where
  "list_pos n i =
     (let j = (if i < 0 then int n + i else i)
      in if 0 \<le> j \<and> j < int n then Some (nat j) else None)"

text \<open>
  \<^verbatim>\<open>
  def recursively_unwrap_value(recursive_value):
      recursive_value = unwrap_value(recursive_value)
      if type(recursive_value) == list:
          return [recursively_unwrap_value(v) for v in recursive_value]
      elif type(recursive_value) == dict:
          return dict([(k, recursively_unwrap_value(v)) for k, v in recursive_value.items()])
      return recursive_value
  \<close>
  On a raw value this is the deep copy: new lists and dicts with the same contents.
\<close>

fun recursively_unwrap_value :: "pyval \<Rightarrow> pyval" where
  "recursively_unwrap_value (PList xs) = PList (map recursively_unwrap_value xs)"
| "recursively_unwrap_value (PDict kvs) =
     PDict (map (\<lambda>(k, v). (k, recursively_unwrap_value v)) kvs)"
| "recursively_unwrap_value v = v"

text \<open>\<open>ensure_list(value)\<close>: \<open>value if type(value) == list else [value]\<close>.\<close>

fun ensure_list :: "pyval \<Rightarrow> pyval list" where
  "ensure_list (PList xs) = xs"
| "ensure_list v = [v]"

section \<open>Views\<close>

text \<open>
  A Traverser wraps one container and hands out further Traversers over the containers
  inside it: \<open>wrap_value\<close> wraps without copying, so such a view and its parent share the
  container, and a write through one is seen through the other. The tree of the root view
  is the state; a view inside it is the list of dict keys that leads from the root to
  its container (\<open>Traverser.get\<close> is the only way to a view, and it passes through dicts
  only). A Python variable holds a view or a value that is not a container. The tree has
  no container in two places: the constructor's deep copy and every \<open>__setitem__\<close> store
  fresh copies (\<open>recursively_unwrap_value\<close>).
\<close>

type_synonym cursor = "string list"

datatype node = View cursor | Raw pyval

fun deref :: "pyval \<Rightarrow> cursor \<Rightarrow> pyval option" where
  "deref v [] = Some v"
| "deref (PDict kvs) (k # ks) = (case map_of kvs k of None \<Rightarrow> None | Some w \<Rightarrow> deref w ks)"
| "deref v (k # ks) = None"

text \<open>\<open>node()\<close> for a view: the container it wraps.\<close>

definition view_value :: "pyval \<Rightarrow> cursor \<Rightarrow> pyval" where
  "view_value root c = (case deref root c of Some v \<Rightarrow> v | None \<Rightarrow> PNone)"

text \<open>Storing a new container where the view's container is.\<close>

primrec put :: "cursor \<Rightarrow> pyval \<Rightarrow> pyval \<Rightarrow> pyval" where
  "put [] new root = new"
| "put (k # ks) new root =
     (case root of
        PDict kvs \<Rightarrow> PDict (map (\<lambda>(k', v). if k' = k then (k', put ks new v) else (k', v)) kvs)
      | _ \<Rightarrow> root)"

text \<open>
  \<open>wrap_value(value)\<close>: a container is wrapped in a view (here: named by the place
  \<open>c\<close> it was read from), anything else is returned as it is.
\<close>

definition wrap_value :: "cursor \<Rightarrow> pyval \<Rightarrow> node" where
  "wrap_value c v = (if traversable v then View c else Raw v)"

text \<open>What a variable stands for: the container of a view, or the value itself.\<close>

definition node_value :: "pyval \<Rightarrow> node \<Rightarrow> pyval" where
  "node_value root n = (case n of View c \<Rightarrow> view_value root c | Raw v \<Rightarrow> v)"

text \<open>\<open>__len__\<close> and \<open>__bool__\<close>.\<close>

definition view_len :: "pyval \<Rightarrow> cursor \<Rightarrow> nat" where
  "view_len root c = (case view_value root c of PList xs \<Rightarrow> length xs | _ \<Rightarrow> 1)"

definition view_bool :: "pyval \<Rightarrow> cursor \<Rightarrow> bool" where
  "view_bool root c = (view_len root c \<noteq> 0)"

text \<open>
  \<^verbatim>\<open>
  def get(self, attr, default=None):
      value = self().get(attr, default)
      return wrap_value(value)
  \<close>
  A dict has \<open>.get\<close>; a list has not, and the attribute lookup raises AttributeError.
  No dict here has an integer key, so \<open>.get\<close> of an integer finds nothing.
\<close>

definition view_get :: "pyval \<Rightarrow> cursor \<Rightarrow> pykey \<Rightarrow> pyerr + node" where
  "view_get root c key =
     (case view_value root c of
        PDict kvs \<Rightarrow>
          (case key of
             KStr k \<Rightarrow>
               (case map_of kvs k of
                  None \<Rightarrow> Inr (Raw PNone)
                | Some v \<Rightarrow> Inr (wrap_value (c @ [k]) v))
           | KInt i \<Rightarrow> Inr (Raw PNone))
      | _ \<Rightarrow> Inl AttributeError)"

text \<open>
  \<^verbatim>\<open>
  def __setitem__(self, index, value):
      self()[index] = recursively_unwrap_value(value)
  \<close>
  The result is the new tree. A list takes integer subscripts in range only. Python
  stores an integer key in a dict; that case is marked \<open>NonStringKey\<close>.
\<close>

definition view_setitem :: "pyval \<Rightarrow> cursor \<Rightarrow> pykey \<Rightarrow> pyval \<Rightarrow> pyerr + pyval" where
  "view_setitem root c key x =
     (case view_value root c of
        PDict kvs \<Rightarrow>
          (case key of
             KStr k \<Rightarrow> Inr (put c (PDict (dict_set kvs k (recursively_unwrap_value x))) root)
           | KInt i \<Rightarrow> Inl NonStringKey)
      | PList xs \<Rightarrow>
          (case key of
             KInt i \<Rightarrow>
               (case list_pos (length xs) i of
                  Some j \<Rightarrow> Inr (put c (PList (xs[j := recursively_unwrap_value x])) root)
                | None \<Rightarrow> Inl IndexError)
           | KStr k \<Rightarrow> Inl TypeError)
      | _ \<Rightarrow> Inl TypeError)"

section \<open>Reading a path\<close>

text \<open>
  \<^verbatim>\<open>
  def _find(self, path):
      def get(node, _keys):
          _key = _keys.pop(0)
          if isinstance(node(), list):
              try:
                  _key = int(_key)
              except ValueError:
                  pass
          try:
              next_node = node.get(_key)
          except (AttributeError, TypeError, IndexError):
              return None
          if not _keys:
              return next_node
          if not isinstance(next_node, Traverser):
              return None
          return get(next_node, _keys)
      keys = split_escaped(path)
      return get(self, keys)
  \<close>
\<close>

definition caught :: "pyerr \<Rightarrow> bool" where
  "caught e = (e = AttributeError \<or> e = TypeError \<or> e = IndexError)"

fun find_get :: "pyval \<Rightarrow> cursor \<Rightarrow> string list \<Rightarrow> pyerr + node" where
  "find_get root c [] = Inl IndexError"
| "find_get root c (k # ks) =
     (let key = (if is_list (view_value root c)
                 then (case py_int k of Some i \<Rightarrow> KInt i | None \<Rightarrow> KStr k)
                 else KStr k)
      in case view_get root c key of
           Inl e \<Rightarrow> (if caught e then Inr (Raw PNone) else Inl e)
         | Inr next_node \<Rightarrow>
             if ks = [] then Inr next_node
             else (case next_node of
                     Raw v \<Rightarrow> Inr (Raw PNone)
                   | View c' \<Rightarrow> find_get root c' ks))"

definition view_find :: "pyval \<Rightarrow> cursor \<Rightarrow> string \<Rightarrow> pyerr + node" where
  "view_find root c path = find_get root c (split_escaped path)"

section \<open>Writing a path\<close>

text \<open>
  \<^verbatim>\<open>
  def append(self, item):
      value = self()
      item = unwrap_value(item)
      if type(value) == list:
          value.append(item)
      else:
          self.__traverser__internals__['value'] = [value, item]
      return self
  \<close>
  as \<open>set_\<close> calls it, on the view that \<open>parent.get(parent_key)\<close> has just made: a list is
  extended in place, in the tree; over a dict the new list is stored in that view alone,
  which nothing else holds, and the tree stays as it is. A value that is no view has no
  \<open>append\<close>.
\<close>

definition node_append :: "pyval \<Rightarrow> node \<Rightarrow> pyval \<Rightarrow> pyerr + pyval" where
  "node_append root n item =
     (case n of
        Raw v \<Rightarrow> Inl AttributeError
      | View c \<Rightarrow>
          (case view_value root c of
             PList xs \<Rightarrow> Inr (put c (PList (xs @ [item])) root)
           | _ \<Rightarrow> Inr root))"

text \<open>
  The parent of a step of \<open>set_\<close>: \<open>None\<close> at the root (\<open>parent=None, parent_key=None\<close>),
  and from then on the view the step before went through with the key it used. The three
  things the code does with it follow; on \<open>None\<close> the subscript assignment and the call
  raise TypeError and the attribute lookup raises AttributeError.
\<close>

text \<open>\<open>parent[parent_key] = x\<close>\<close>

definition parent_setitem :: "pyval \<Rightarrow> (cursor \<times> pykey) option \<Rightarrow> pyval \<Rightarrow> pyerr + pyval" where
  "parent_setitem root parent x =
     (case parent of
        None \<Rightarrow> Inl TypeError
      | Some (pc, pk) \<Rightarrow> view_setitem root pc pk x)"

text \<open>\<open>parent.get(parent_key)\<close>\<close>

definition parent_get :: "pyval \<Rightarrow> (cursor \<times> pykey) option \<Rightarrow> pyerr + node" where
  "parent_get root parent =
     (case parent of
        None \<Rightarrow> Inl AttributeError
      | Some (pc, pk) \<Rightarrow> view_get root pc pk)"

text \<open>
  \<open>parent(parent_key)\<close>: \<open>__call__\<close> with a path and no value takes its first branch,
  \<open>self._find(path)\<close>, which splits the key as a path again; an integer has no
  \<open>replace\<close> for \<open>split_escaped\<close> to call.
\<close>

definition parent_call :: "pyval \<Rightarrow> (cursor \<times> pykey) option \<Rightarrow> pyerr + node" where
  "parent_call root parent =
     (case parent of
        None \<Rightarrow> Inl TypeError
      | Some (pc, pk) \<Rightarrow>
          (case pk of
             KStr k \<Rightarrow> view_find root pc k
           | KInt i \<Rightarrow> Inl AttributeError))"

text \<open>
  \<^verbatim>\<open>
  def set_(node, _keys, parent=None, parent_key=None):
      _key = _keys.pop(0)
      try:
          _key = int(_key)
          if not isinstance(node(), list):
              parent[parent_key] = [{}]
              node = parent.get(parent_key)
              _key = 0
          else:
              if abs(_key) >= len(node):
                  parent.get(parent_key).append({})
                  _key = len(node) - 1 if _key >= 0 else 0
              node = parent.get(parent_key)
      except ValueError:
          if not node or not isinstance(node(), dict):
              parent[parent_key] = {}
              node = parent(parent_key)
      if not _keys:
          node[_key] = value
          return self
      return set_(node.get(_key), _keys, node, _key)
  \<close>
  \<open>set_node\<close> is \<open>set_\<close>, and \<open>set_prepare\<close> is its \<open>try\<close> statement: it returns the tree, and the new \<open>node\<close> and
  \<open>_key\<close> or the exception that leaves \<open>set_\<close>. Calling a value that is no view
  (\<open>node()\<close> on None, a number, a string) raises TypeError. The tree is returned with the
  exception too, since what was written before a raise stays written.
\<close>

definition set_prepare ::
  "pyval \<Rightarrow> node \<Rightarrow> string \<Rightarrow> (cursor \<times> pykey) option \<Rightarrow> pyval \<times> (pyerr + node \<times> pykey)" where
  "set_prepare root node k parent =
     (case py_int k of
        Some i \<Rightarrow>
          (case node of
             Raw v \<Rightarrow> (root, Inl TypeError)
           | View c \<Rightarrow>
               if \<not> is_list (view_value root c) then
                 (case parent_setitem root parent (PList [PDict []]) of
                    Inl e \<Rightarrow> (root, Inl e)
                  | Inr root1 \<Rightarrow>
                      (case parent_get root1 parent of
                         Inl e \<Rightarrow> (root1, Inl e)
                       | Inr node1 \<Rightarrow> (root1, Inr (node1, KInt 0))))
               else if abs i \<ge> int (view_len root c) then
                 (case parent_get root parent of
                    Inl e \<Rightarrow> (root, Inl e)
                  | Inr tmp \<Rightarrow>
                      (case node_append root tmp (PDict []) of
                         Inl e \<Rightarrow> (root, Inl e)
                       | Inr root1 \<Rightarrow>
                           (case parent_get root1 parent of
                              Inl e \<Rightarrow> (root1, Inl e)
                            | Inr node1 \<Rightarrow>
                                (root1, Inr (node1,
                                   KInt (if i \<ge> 0 then int (view_len root1 c) - 1 else 0))))))
               else
                 (case parent_get root parent of
                    Inl e \<Rightarrow> (root, Inl e)
                  | Inr node1 \<Rightarrow> (root, Inr (node1, KInt i))))
      | None \<Rightarrow>
          (case (case node of
                   Raw v \<Rightarrow> if py_truthy v then Inl TypeError else Inr True
                 | View c \<Rightarrow>
                     if view_bool root c then Inr (\<not> is_dict (view_value root c)) else Inr True) of
             Inl e \<Rightarrow> (root, Inl e)
           | Inr replace \<Rightarrow>
               if replace then
                 (case parent_setitem root parent (PDict []) of
                    Inl e \<Rightarrow> (root, Inl e)
                  | Inr root1 \<Rightarrow>
                      (case parent_call root1 parent of
                         Inl e \<Rightarrow> (root1, Inl e)
                       | Inr node1 \<Rightarrow> (root1, Inr (node1, KStr k))))
               else (root, Inr (node, KStr k))))"

text \<open>
  The rest of \<open>set_\<close>: the assignment \<open>node[_key] = value\<close> at the last key, the step into
  \<open>node.get(_key)\<close> before. Both need \<open>node\<close> to be a view: any other value has neither
  item assignment (TypeError) nor \<open>get\<close> (AttributeError). The result is the tree and the
  exception raised, if any; without one, \<open>set_\<close> returns \<open>self\<close>.
\<close>

fun set_node ::
  "pyval \<Rightarrow> node \<Rightarrow> string list \<Rightarrow> (cursor \<times> pykey) option \<Rightarrow> pyval \<Rightarrow> pyval \<times> pyerr option" where
  "set_node root node [] parent val = (root, Some IndexError)"
| "set_node root node (k # ks) parent val =
     (case set_prepare root node k parent of
        (root1, Inl e) \<Rightarrow> (root1, Some e)
      | (root1, Inr (node1, key1)) \<Rightarrow>
          if ks = [] then
            (case node1 of
               Raw v \<Rightarrow> (root1, Some TypeError)
             | View c1 \<Rightarrow>
                 (case view_setitem root1 c1 key1 val of
                    Inl e \<Rightarrow> (root1, Some e)
                  | Inr root2 \<Rightarrow> (root2, None)))
          else
            (case node1 of
               Raw v \<Rightarrow> (root1, Some AttributeError)
             | View c1 \<Rightarrow>
                 (case view_get root1 c1 key1 of
                    Inl e \<Rightarrow> (root1, Some e)
                  | Inr child \<Rightarrow> set_node root1 child ks (Some (c1, key1)) val)))"

text \<open>
  \<^verbatim>\<open>
  def _set(self, path, value, force=True, deepcopy=False):
      ...
      keys = split_escaped(path)
      return set_(self, keys)
  \<close>
  for the view at \<open>c\<close>, with \<open>deepcopy\<close> at its default.
\<close>

definition view_set :: "pyval \<Rightarrow> cursor \<Rightarrow> string \<Rightarrow> pyval \<Rightarrow> pyval \<times> pyerr option" where
  "view_set root c path val = set_node root (View c) (split_escaped path) None val"

section \<open>Filter\<close>

text \<open>
  \<^verbatim>\<open>
  class Filter(object):
      def __init__(self, blacklist=None, whitelist=None):
          self.blacklist = [] if blacklist is None else ensure_list(blacklist)
          self.whitelist = [] if whitelist is None else ensure_list(whitelist)
  \<close>
\<close>

record filter =
  blacklist :: "pyval list"
  whitelist :: "pyval list"

definition Filter_init :: "pyval \<Rightarrow> pyval \<Rightarrow> filter" where
  "Filter_init bl wl =
     \<lparr>blacklist = (if bl = PNone then [] else ensure_list bl),
      whitelist = (if wl = PNone then [] else ensure_list wl)\<rparr>"

text \<open>\<open>k in xs\<close> for a key \<open>k\<close> and a list \<open>xs\<close>: some element equals the key.\<close>

definition key_in :: "string \<Rightarrow> pyval list \<Rightarrow> bool" where
  "key_in k xs = list_ex (py_eq (PStr k)) xs"

text \<open>
  \<^verbatim>\<open>
  if self.blacklist:
      keys = [k for k in keys if k not in self.blacklist]
  if self.whitelist:
      keys = [k for k in keys if k in self.whitelist]
  \<close>
\<close>

definition filter_keys :: "filter \<Rightarrow> string list \<Rightarrow> string list" where
  "filter_keys f keys =
     (let keys1 = (if blacklist f \<noteq> [] then [k \<leftarrow> keys. \<not> key_in k (blacklist f)] else keys)
      in if whitelist f \<noteq> [] then [k \<leftarrow> keys1. key_in k (whitelist f)] else keys1)"

text \<open>\<open>sorted\<close> on strings: by code point, a proper prefix first.\<close>

fun str_less :: "string \<Rightarrow> string \<Rightarrow> bool" where
  "str_less [] [] = False"
| "str_less [] (y # ys) = True"
| "str_less (x # xs) [] = False"
| "str_less (x # xs) (y # ys) =
     ((of_char x :: nat) < of_char y \<or> (x = y \<and> str_less xs ys))"

fun str_insert :: "string \<Rightarrow> string list \<Rightarrow> string list" where
  "str_insert s [] = [s]"
| "str_insert s (t # ts) = (if str_less t s then t # str_insert s ts else s # t # ts)"

definition py_sorted :: "string list \<Rightarrow> string list" where
  "py_sorted ss = foldr str_insert ss []"

text \<open>
  \<^verbatim>\<open>
  def are_equal(self, left, right):
      left_value = unwrap_value(left)
      right_value = unwrap_value(right)
      if type(left_value) == type(right_value) == list:
          if len(left_value) != len(right_value):
              return False
          for index, item in enumerate(left_value):
              if not self.are_equal(item, right_value[index]):
                  return False
          return True
      elif type(left_value) == type(right_value) == dict:
          left_keys = sorted(left_value.keys())
          right_keys = sorted(right_value.keys())
          if self.blacklist:
              left_keys = [k for k in left_keys if k not in self.blacklist]
              right_keys = [k for k in right_keys if k not in self.blacklist]
          if self.whitelist:
              left_keys = [k for k in left_keys if k in self.whitelist]
              right_keys = [k for k in right_keys if k in self.whitelist]
          if left_keys != right_keys:
              return False
          for key in left_keys:
              if not self.are_equal(left_value[key], right_value[key]):
                  return False
          return True
      else:
          return left_value == right_value
  \<close>
  on unwrapped values.
\<close>

function are_equal :: "filter \<Rightarrow> pyval \<Rightarrow> pyval \<Rightarrow> bool" where
  "are_equal f (PList xs) (PList ys) =
     (if length xs \<noteq> length ys then False
      else list_all (\<lambda>index. are_equal f (xs ! index) (ys ! index)) [0 ..< length xs])"
| "are_equal f (PDict l) (PDict r) =
     (let left_keys = filter_keys f (py_sorted (map fst l));
          right_keys = filter_keys f (py_sorted (map fst r))
      in if left_keys \<noteq> right_keys then False
         else list_all (\<lambda>key. are_equal f (dict_item l key) (dict_item r key)) left_keys)"
| "are_equal f PNone w = py_eq PNone w"
| "are_equal f (PBool b) w = py_eq (PBool b) w"
| "are_equal f (PInt i) w = py_eq (PInt i) w"
| "are_equal f (PStr s) w = py_eq (PStr s) w"
| "are_equal f (PList xs) PNone = False"
| "are_equal f (PList xs) (PBool b) = False"
| "are_equal f (PList xs) (PInt i) = False"
| "are_equal f (PList xs) (PStr s) = False"
| "are_equal f (PList xs) (PDict r) = False"
| "are_equal f (PDict l) PNone = False"
| "are_equal f (PDict l) (PBool b) = False"
| "are_equal f (PDict l) (PInt i) = False"
| "are_equal f (PDict l) (PStr s) = False"
| "are_equal f (PDict l) (PList ys) = False"
  by pat_completeness auto
termination
proof (relation "measure (\<lambda>(f, l, r). size l)")
  show "wf (measure (\<lambda>(f, l, r). size l))"
    by simp
next
  fix f :: filter and xs ys :: "pyval list" and index :: nat
  assume "index \<in> set [0 ..< length xs]"
  then have "xs ! index \<in> set xs"
    by simp
  then have "size (xs ! index) < Suc (size_list size xs)"
    by (simp add: less_Suc_eq_le size_list_estimation')
  then show "((f, xs ! index, ys ! index), (f, PList xs, PList ys)) \<in> measure (\<lambda>(f, l, r). size l)"
    by simp
next
  fix f :: filter and l r :: "(string \<times> pyval) list" and key :: string
  have "size (dict_item l key) < Suc (size_list (size_prod (\<lambda>_. 0) size) l)"
    by (induction l) (auto simp: dict_item_def)
  then show "((f, dict_item l key, dict_item r key), (f, PDict l, PDict r)) \<in> measure (\<lambda>(f, l, r). size l)"
    by simp
qed

text \<open>
  \<^verbatim>\<open>
  def prune(self, value):
      value = unwrap_value(value)
      if type(value) == list:
          for item in value:
              self.prune(item)
      elif type(value) == dict:
          keys = list(value.keys())
          if self.blacklist:
              keys = [k for k in keys if k not in self.blacklist]
          if self.whitelist:
              keys = [k for k in keys if k in self.whitelist]
          for key in list(value.keys()):
              if key in keys:
                  self.prune(value[key])
              else:
                  del value[key]
  \<close>
  The value is changed in place; the function returns what it has become. The loop over
  the dict goes through the keys the dict had at the start, each with the value it holds:
  a kept key holds its pruned value afterwards, another key is deleted.
\<close>

fun prune :: "filter \<Rightarrow> pyval \<Rightarrow> pyval" where
  "prune f (PList xs) = PList (map (prune f) xs)"
| "prune f (PDict kvs) =
     (let keys = filter_keys f (map fst kvs)
      in PDict (foldl (\<lambda>d (key, item).
                  if key \<in> set keys then dict_set d key (prune f item) else dict_del d key)
                kvs kvs))"
| "prune f v = v"

section \<open>Traverser\<close>

text \<open>
  The root view: the tree it wraps and the filter attached to it. An argument of its
  methods is another Traverser or a raw value; \<open>unwrap_value\<close> takes the tree out of
  the former.
\<close>

record traverser =
  tvalue :: pyval
  tfilter :: "filter option"

datatype operand = Trav traverser | Plain pyval

definition unwrap_value :: "operand \<Rightarrow> pyval" where
  "unwrap_value x = (case x of Trav t \<Rightarrow> tvalue t | Plain v \<Rightarrow> v)"

text \<open>
  \<^verbatim>\<open>
  def __init__(self, value, deepcopy=True, filter=None):
      if hasattr(value, 'json') and inspect.ismethod(value.json):
          value = value.json()
      if isinstance(value, str):
          value = json.loads(value)
      if not traversable(value):
          raise ValueError("Only list or dict types allowed: '{}'".format(value))
      if deepcopy:
          value = recursively_unwrap_value(value)
      self.__traverser__internals__ = {'value': value, 'filter': filter}
  \<close>
  \<open>json.loads\<close> is a parameter: it returns a value or raises (a ValueError). No value
  here has a \<open>json\<close> method.
\<close>

definition trav_init ::
  "(string \<Rightarrow> pyerr + pyval) \<Rightarrow> pyval \<Rightarrow> bool \<Rightarrow> filter option \<Rightarrow> pyerr + traverser" where
  "trav_init loads v deepcopy flt =
     (case (case v of PStr s \<Rightarrow> loads s | _ \<Rightarrow> Inr v) of
        Inl e \<Rightarrow> Inl e
      | Inr v1 \<Rightarrow>
          if \<not> traversable v1 then Inl ValueError
          else Inr \<lparr>tvalue = (if deepcopy then recursively_unwrap_value v1 else v1),
                    tfilter = flt\<rparr>)"

text \<open>\<open>_find\<close> and \<open>_set\<close> on the root view; \<open>_set\<close> returns \<open>self\<close>.\<close>

definition trav_find :: "traverser \<Rightarrow> string \<Rightarrow> pyerr + node" where
  "trav_find t path = view_find (tvalue t) [] path"

definition trav_set :: "traverser \<Rightarrow> string \<Rightarrow> pyval \<Rightarrow> traverser \<times> pyerr option" where
  "trav_set t path val =
     (case view_set (tvalue t) [] path val of (root1, e) \<Rightarrow> (t\<lparr>tvalue := root1\<rparr>, e))"

text \<open>
  \<^verbatim>\<open>
  def __call__(self, path=None, value=None):
      if path is not None and value is None:
          return self._find(path)
      elif None not in (path, value):
          return self._set(path, value)
      elif value and path is None:
          raise ValueError('path argument cannot be None when value argument is not None')
      else:
          return self.__traverser__internals__['value']
  \<close>
  The path is a string or None, the value a raw value (\<open>PNone\<close> is None). The call
  returns what \<open>_find\<close> found, or \<open>self\<close>, or the wrapped tree.
\<close>

datatype callres = Found node | Self | Value pyval

definition trav_call :: "traverser \<Rightarrow> string option \<Rightarrow> pyval \<Rightarrow> traverser \<times> (pyerr + callres)" where
  "trav_call t path val =
     (if path \<noteq> None \<and> val = PNone then
        (case trav_find t (the path) of
           Inl e \<Rightarrow> (t, Inl e)
         | Inr n \<Rightarrow> (t, Inr (Found n)))
      else if path \<noteq> None \<and> val \<noteq> PNone then
        (case trav_set t (the path) val of
           (t1, Some e) \<Rightarrow> (t1, Inl e)
         | (t1, None) \<Rightarrow> (t1, Inr Self))
      else if py_truthy val \<and> path = None then (t, Inl ValueError)
      else (t, Inr (Value (tvalue t))))"

text \<open>
  \<^verbatim>\<open>
  def append(self, item):
      value = self()
      item = unwrap_value(item)
      if type(value) == list:
          value.append(item)
      else:
          self.__traverser__internals__['value'] = [value, item]
      return self

  def extend(self, item):
      value = self()
      items = ensure_list(unwrap_value(item))
      if type(value) == list:
          value.extend(items)
      else:
          self.__traverser__internals__['value'] = [value] + items
      return self
  \<close>
\<close>

text \<open>
  The item is stored as the value it has at the call: the code stores the object itself, so
  an item that is changed afterwards, or a view appended to itself, is not followed here.
\<close>

definition trav_append :: "traverser \<Rightarrow> operand \<Rightarrow> traverser" where
  "trav_append t item =
     (case tvalue t of
        PList xs \<Rightarrow> t\<lparr>tvalue := PList (xs @ [unwrap_value item])\<rparr>
      | v \<Rightarrow> t\<lparr>tvalue := PList [v, unwrap_value item]\<rparr>)"

definition trav_extend :: "traverser \<Rightarrow> operand \<Rightarrow> traverser" where
  "trav_extend t item =
     (let items = ensure_list (unwrap_value item)
      in case tvalue t of
           PList xs \<Rightarrow> t\<lparr>tvalue := PList (xs @ items)\<rparr>
         | v \<Rightarrow> t\<lparr>tvalue := PList ([v] @ items)\<rparr>)"

text \<open>
  \<open>__setitem__\<close> on the root view, and
  \<^verbatim>\<open>
  def __delitem__(self, item):
      del self()[item]
  \<close>
  which raises KeyError for a key the dict has not, IndexError for a subscript out of the
  list's range and TypeError for a string subscript of a list.
\<close>

definition trav_setitem :: "traverser \<Rightarrow> pykey \<Rightarrow> operand \<Rightarrow> pyerr + traverser" where
  "trav_setitem t key x =
     (case view_setitem (tvalue t) [] key (unwrap_value x) of
        Inl e \<Rightarrow> Inl e
      | Inr root1 \<Rightarrow> Inr (t\<lparr>tvalue := root1\<rparr>))"

definition trav_delitem :: "traverser \<Rightarrow> pykey \<Rightarrow> pyerr + traverser" where
  "trav_delitem t key =
     (case tvalue t of
        PDict kvs \<Rightarrow>
          (case key of
             KStr k \<Rightarrow>
               if map_of kvs k = None then Inl KeyError
               else Inr (t\<lparr>tvalue := PDict (dict_del kvs k)\<rparr>)
           | KInt i \<Rightarrow> Inl KeyError)
      | PList xs \<Rightarrow>
          (case key of
             KInt i \<Rightarrow>
               (case list_pos (length xs) i of
                  Some j \<Rightarrow> Inr (t\<lparr>tvalue := PList (take j xs @ drop (Suc j) xs)\<rparr>)
                | None \<Rightarrow> Inl IndexError)
           | KStr k \<Rightarrow> Inl TypeError)
      | _ \<Rightarrow> Inl TypeError)"

text \<open>
  \<^verbatim>\<open>
  def __eq__(self, other):
      if self.__traverser__internals__['filter'] is None:
          return self() == unwrap_value(other)
      else:
          return self.__traverser__internals__['filter'].are_equal(self, other)

  def prune(self, filter=None):
      if filter is None:
          filter = self.__traverser__internals__['filter']
      if filter is not None:
          filter.prune(self)
      return self
  \<close>
\<close>

definition trav_eq :: "traverser \<Rightarrow> operand \<Rightarrow> bool" where
  "trav_eq t other =
     (case tfilter t of
        None \<Rightarrow> py_eq (tvalue t) (unwrap_value other)
      | Some f \<Rightarrow> are_equal f (tvalue t) (unwrap_value other))"

definition trav_prune :: "traverser \<Rightarrow> filter option \<Rightarrow> traverser" where
  "trav_prune t flt =
     (case (case flt of None \<Rightarrow> tfilter t | Some f \<Rightarrow> Some f) of
        None \<Rightarrow> t
      | Some f \<Rightarrow> t\<lparr>tvalue := prune f (tvalue t)\<rparr>)"

section \<open>The path grammar as the specification words it\<close>

text \<open>
  A path is read from the left: two dots in a row are one literal dot inside the segment
  being read, a single dot ends the segment and starts the next one, any other character
  belongs to the segment. \<open>cons_first c\<close> puts \<open>c\<close> in front of the first segment.
\<close>

fun cons_first :: "char \<Rightarrow> string list \<Rightarrow> string list" where
  "cons_first c [] = [[c]]"
| "cons_first c (w # ws) = (c # w) # ws"

fun path_segments :: "string \<Rightarrow> string list" where
  "path_segments [] = [[]]"
| "path_segments [c] = (if c = CHR ''.'' then [[], []] else [[c]])"
| "path_segments (c # d # cs) =
     (if c = CHR ''.'' \<and> d = CHR ''.'' then cons_first (CHR ''.'') (path_segments cs)
      else if c = CHR ''.'' then [] # path_segments (d # cs)
      else cons_first c (path_segments (d # cs)))"

text \<open>\<open>has_sub w s\<close>: the text \<open>w\<close> occurs somewhere in \<open>s\<close>.\<close>

fun has_sub :: "string \<Rightarrow> string \<Rightarrow> bool" where
  "has_sub w [] = (w = [])"
| "has_sub w (c # cs) = (take (length w) (c # cs) = w \<or> has_sub w cs)"

section \<open>The key selection as the specification words it\<close>

text \<open>
  A key is retained when it is not blacklisted and, if a whitelist is configured, it is
  whitelisted.
\<close>

definition retained :: "filter \<Rightarrow> string \<Rightarrow> bool" where
  "retained f k =
     (\<not> key_in k (blacklist f) \<and> (whitelist f = [] \<or> key_in k (whitelist f)))"

section \<open>Writing through an integer segment\<close>

text \<open>
  C1 (read/write consistency: \<open>set(P, V)\<close> then \<open>get(P)\<close> returns \<open>V\<close>; from root \<open>{}\<close>,
  \<open>set("a.0.b", 5)\<close> then \<open>get("a.0.b")\<close> returns 5). On the code the write itself fails:
  after the step for \<open>a\<close>, \<open>node\<close> is None (the key is missing), \<open>int("0")\<close> succeeds and
  \<open>node()\<close> raises TypeError. Nothing has been written, and the read finds nothing.
\<close>

theorem set_a_0_b_raises:
  "trav_set \<lparr>tvalue = PDict [], tfilter = None\<rparr> ''a.0.b'' (PInt 5)
     = (\<lparr>tvalue = PDict [], tfilter = None\<rparr>, Some TypeError)
   \<and> trav_find (fst (trav_set \<lparr>tvalue = PDict [], tfilter = None\<rparr> ''a.0.b'' (PInt 5))) ''a.0.b''
     = Inr (Raw PNone)"
  by code_simp

text \<open>
  C2 (autovivification type choice: from root \<open>{}\<close>, \<open>set("x.0", "v")\<close> succeeds and makes
  \<open>x\<close> a one-element list). On the code the call raises TypeError for the same reason,
  \<open>node()\<close> on the None found under the missing key \<open>x\<close>, and the root stays \<open>{}\<close>;
  a scalar under \<open>x\<close> fails in the same way. Only a dict under \<open>x\<close> is replaced by
  \<open>[{}]\<close>: then a last segment \<open>0\<close> is written, and a further segment raises
  AttributeError, since the step into index 0 calls \<open>.get\<close> on the new list.
\<close>

theorem set_x_0_raises:
  "trav_set \<lparr>tvalue = PDict [], tfilter = None\<rparr> ''x.0'' (PStr ''v'')
     = (\<lparr>tvalue = PDict [], tfilter = None\<rparr>, Some TypeError)
   \<and> trav_set \<lparr>tvalue = PDict [(''x'', PInt 5)], tfilter = None\<rparr> ''x.0'' (PStr ''v'')
     = (\<lparr>tvalue = PDict [(''x'', PInt 5)], tfilter = None\<rparr>, Some TypeError)
   \<and> trav_set \<lparr>tvalue = PDict [(''x'', PDict [])], tfilter = None\<rparr> ''x.0'' (PStr ''v'')
     = (\<lparr>tvalue = PDict [(''x'', PList [PStr ''v''])], tfilter = None\<rparr>, None)
   \<and> trav_set \<lparr>tvalue = PDict [(''x'', PDict [])], tfilter = None\<rparr> ''x.0.y'' (PStr ''v'')
     = (\<lparr>tvalue = PDict [(''x'', PList [PDict []])], tfilter = None\<rparr>, Some AttributeError)"
  by code_simp

section \<open>Reading through a list\<close>

text \<open>
  C4 (a segment that parses as an integer indexes a list node, negative indices included).
  On the code \<open>node.get(_key)\<close> calls \<open>.get\<close> on the list, the AttributeError is caught,
  and the read returns None: for \<open>{"a": [10, 20]}\<close>, \<open>get("a.0")\<close> and \<open>get("a.-1")\<close>
  are None, and so is \<open>get("0")\<close> on the root \<open>[10, 20]\<close>.
\<close>

theorem find_list_index_is_None:
  "trav_find \<lparr>tvalue = PDict [(''a'', PList [PInt 10, PInt 20])], tfilter = None\<rparr> ''a.0''
     = Inr (Raw PNone)
   \<and> trav_find \<lparr>tvalue = PDict [(''a'', PList [PInt 10, PInt 20])], tfilter = None\<rparr> ''a.-1''
     = Inr (Raw PNone)
   \<and> trav_find \<lparr>tvalue = PList [PInt 10, PInt 20], tfilter = None\<rparr> ''0'' = Inr (Raw PNone)"
  by code_simp

section \<open>Failures of set and of the call helper\<close>

text \<open>
  C9 (\<open>set\<close> never fails for a non-empty path; the call helper with a value and no path
  always raises). On the code, \<open>set("0", 1)\<close> on the root \<open>{}\<close> raises TypeError (the root
  has no parent to replace it at), \<open>set("a.b", 1)\<close> on \<open>{"a": 5}\<close> raises TypeError
  (\<open>node()\<close> on 5), and the call helper with no path and the value 0 raises nothing: it
  returns the wrapped tree, since the test is the value's truth, not \<open>is not None\<close>
  (with the value 1 it raises ValueError).
\<close>

theorem set_raises_and_call_does_not:
  "trav_set \<lparr>tvalue = PDict [], tfilter = None\<rparr> ''0'' (PInt 1)
     = (\<lparr>tvalue = PDict [], tfilter = None\<rparr>, Some TypeError)
   \<and> trav_set \<lparr>tvalue = PDict [(''a'', PInt 5)], tfilter = None\<rparr> ''a.b'' (PInt 1)
     = (\<lparr>tvalue = PDict [(''a'', PInt 5)], tfilter = None\<rparr>, Some TypeError)
   \<and> trav_call \<lparr>tvalue = PDict [], tfilter = None\<rparr> None (PInt 0)
     = (\<lparr>tvalue = PDict [], tfilter = None\<rparr>, Inr (Value (PDict [])))
   \<and> trav_call \<lparr>tvalue = PDict [], tfilter = None\<rparr> None (PInt 1)
     = (\<lparr>tvalue = PDict [], tfilter = None\<rparr>, Inl ValueError)"
  by code_simp

section \<open>Reading never raises\<close>

lemma str_split_nonempty: "str_split sep s \<noteq> []"
  by (induction s) (auto split: list.splits)

lemma split_escaped_nonempty: "split_escaped path \<noteq> []"
  by (simp add: split_escaped_def str_split_nonempty)

lemma view_get_error: "view_get root c key = Inl e \<Longrightarrow> e = AttributeError"
  by (auto simp: view_get_def split: pyval.splits pykey.splits option.splits)

lemma find_get_total: "ks \<noteq> [] \<Longrightarrow> \<exists>n. find_get root c ks = Inr n"
proof (induction ks arbitrary: c)
  case Nil
  then show ?case by simp
next
  case (Cons k ks)
  show ?case
  proof (cases "ks = []")
    case True
    then show ?thesis
      by (auto simp: Let_def caught_def split: sum.splits dest: view_get_error)
  next
    case False
    with Cons.IH show ?thesis
      by (auto simp: Let_def caught_def split: sum.splits node.splits dest: view_get_error)
  qed
qed

lemma find_get_list:
  "is_list (view_value root c) \<Longrightarrow> find_get root c (k # ks) = Inr (Raw PNone)"
  by (cases "view_value root c") (auto simp: view_get_def caught_def Let_def split: option.splits)

lemma find_get_missing:
  "view_value root c = PDict kvs \<Longrightarrow> map_of kvs k = None
   \<Longrightarrow> find_get root c (k # ks) = Inr (Raw PNone)"
  by (auto simp: view_get_def)

lemma find_get_scalar:
  "view_value root c = PDict kvs \<Longrightarrow> map_of kvs k = Some v \<Longrightarrow> \<not> traversable v \<Longrightarrow> ks \<noteq> []
   \<Longrightarrow> find_get root c (k # ks) = Inr (Raw PNone)"
  by (auto simp: view_get_def wrap_value_def)

lemma find_get_descend:
  "view_value root c = PDict kvs \<Longrightarrow> map_of kvs k = Some v \<Longrightarrow> traversable v \<Longrightarrow> ks \<noteq> []
   \<Longrightarrow> find_get root c (k # ks) = find_get root (c @ [k]) ks"
  by (auto simp: view_get_def wrap_value_def)

text \<open>
  C3: for every view and every path string, the path read (\<open>_find\<close>, reached by calling
  the view with a path and no value) returns and does not raise, and leaves the view as it
  is. (\<open>Traverser.get\<close> itself raises AttributeError on a list; \<open>_find\<close> catches it.) A
  step that fails makes the whole call return None: a key the dict has not, a list node
  with a segment that is no integer or an index out of range, a scalar found before the
  last segment. A step that finds a container before the last segment hands the rest of
  the path to it, so the result of the call is the result of the remaining steps.
\<close>

theorem find_never_raises:
  "(\<exists>n. trav_find t path = Inr n \<and> trav_call t (Some path) PNone = (t, Inr (Found n)))
   \<and> (view_value root c = PDict kvs \<and> map_of kvs k = None
        \<longrightarrow> find_get root c (k # ks) = Inr (Raw PNone))
   \<and> (view_value root c = PList xs
        \<and> (case py_int k of None \<Rightarrow> True | Some i \<Rightarrow> list_pos (length xs) i = None)
        \<longrightarrow> find_get root c (k # ks) = Inr (Raw PNone))
   \<and> (view_value root c = PDict kvs \<and> map_of kvs k = Some v \<and> \<not> traversable v \<and> ks \<noteq> []
        \<longrightarrow> find_get root c (k # ks) = Inr (Raw PNone))
   \<and> (view_value root c = PDict kvs \<and> map_of kvs k = Some v \<and> traversable v \<and> ks \<noteq> []
        \<longrightarrow> find_get root c (k # ks) = find_get root (c @ [k]) ks)"
proof -
  have "\<exists>n. trav_find t path = Inr n"
    unfolding trav_find_def view_find_def
    by (rule find_get_total) (rule split_escaped_nonempty)
  then have "\<exists>n. trav_find t path = Inr n \<and> trav_call t (Some path) PNone = (t, Inr (Found n))"
    by (auto simp: trav_call_def)
  moreover have "view_value root c = PList xs \<Longrightarrow> find_get root c (k # ks) = Inr (Raw PNone)"
    by (rule find_get_list) simp
  ultimately show ?thesis
    using find_get_missing [of root c kvs k ks] find_get_scalar [of root c kvs k v ks]
      find_get_descend [of root c kvs k v ks]
    by blast
qed

theorem find_never_raises_witness:
  "(\<exists>n. trav_find \<lparr>tvalue = PDict [(''a'', PDict [(''b'', PInt 1)]), (''l'', PList [PInt 7])],
                    tfilter = None\<rparr> ''a.b.c'' = Inr n)
   \<and> find_get (PDict [(''a'', PDict [(''b'', PInt 1)]), (''l'', PList [PInt 7])]) [] [''zz'', ''y'']
       = Inr (Raw PNone)
   \<and> find_get (PDict [(''a'', PDict [(''b'', PInt 1)]), (''l'', PList [PInt 7])]) [''l''] [''3'']
       = Inr (Raw PNone)
   \<and> find_get (PDict [(''a'', PDict [(''b'', PInt 1)]), (''l'', PList [PInt 7])]) [''a''] [''b'', ''c'']
       = Inr (Raw PNone)
   \<and> find_get (PDict [(''a'', PDict [(''b'', PInt 1)]), (''l'', PList [PInt 7])]) [] [''a'', ''b'']
       = Inr (Raw (PInt 1))"
proof -
  let ?kvs = "[(''a'', PDict [(''b'', PInt 1)]), (''l'', PList [PInt 7])]"
  let ?root = "PDict ?kvs"
  let ?t = "\<lparr>tvalue = ?root, tfilter = None\<rparr>"
  have int3: "py_int ''3'' = Some 3"
    by code_simp
  have a: "\<exists>n. trav_find ?t ''a.b.c'' = Inr n"
    using find_never_raises [of ?t "''a.b.c''"] by blast
  have b: "find_get ?root [] [''zz'', ''y''] = Inr (Raw PNone)"
    using find_never_raises [of ?t "[]" ?root "[]" ?kvs "''zz''" "[''y'']"]
    by (simp add: view_value_def)
  have c: "find_get ?root [''l''] [''3''] = Inr (Raw PNone)"
    using find_never_raises [of ?t "[]" ?root "[''l'']" _ "''3''" "[]" "[PInt 7]"] int3
    by (simp add: view_value_def list_pos_def)
  have d: "find_get ?root [''a''] [''b'', ''c''] = Inr (Raw PNone)"
    using find_never_raises [of ?t "[]" ?root "[''a'']" "[(''b'', PInt 1)]" "''b''" "[''c'']" _ "PInt 1"]
    by (simp add: view_value_def)
  have e: "find_get ?root [] [''a'', ''b''] = find_get ?root [''a''] [''b'']"
    using find_never_raises [of ?t "[]" ?root "[]" ?kvs "''a''" "[''b'']" _ "PDict [(''b'', PInt 1)]"]
    by (simp add: view_value_def)
  have "find_get ?root [''a''] [''b''] = Inr (Raw (PInt 1))"
    by code_simp
  with a b c d e show ?thesis
    by simp
qed

section \<open>Path escaping\<close>

lemma path_segments_nonempty: "path_segments p \<noteq> []"
  by (induction p rule: path_segments.induct) (auto split: list.splits elim: cons_first.elims)

lemma length_cons_first: "ws \<noteq> [] \<Longrightarrow> length (cons_first c ws) = length ws"
  by (cases ws) auto

lemma split_not_dot: "c \<noteq> CHR ''.'' \<Longrightarrow> str_split (CHR ''.'') (c # s) = cons_first c (str_split (CHR ''.'') s)"
  by (cases "str_split (CHR ''.'') s") auto

lemma split_placeholder:
  "str_split (CHR ''.'') (placeholder @ s) =
     (case str_split (CHR ''.'') s of w # ws \<Rightarrow> (placeholder @ w) # ws | [] \<Rightarrow> [placeholder])"
  by (simp add: placeholder_def split: list.splits)

lemma restore_placeholder: "str_replace placeholder ''.'' (placeholder @ s) = CHR ''.'' # str_replace placeholder ''.'' s"
  by (simp add: placeholder_def)

lemma protect_two_dots: "str_replace ''..'' placeholder (CHR ''.'' # CHR ''.'' # cs) = placeholder @ str_replace ''..'' placeholder cs"
  by simp

lemma protect_one_dot: "d \<noteq> CHR ''.'' \<Longrightarrow> str_replace ''..'' placeholder (CHR ''.'' # d # cs) = CHR ''.'' # str_replace ''..'' placeholder (d # cs)"
  by simp

lemma protect_other: "c \<noteq> CHR ''.'' \<Longrightarrow> str_replace ''..'' placeholder (c # cs) = c # str_replace ''..'' placeholder cs"
  by simp


lemma split_escaped_two_dots:
  "split_escaped (CHR ''.'' # CHR ''.'' # cs) = cons_first (CHR ''.'') (split_escaped cs)"
proof -
  obtain w ws where w: "str_split (CHR ''.'') (str_replace ''..'' placeholder cs) = w # ws"
    using str_split_nonempty by (meson list.exhaust)
  show ?thesis
    unfolding split_escaped_def protect_two_dots split_placeholder w
    by (simp add: restore_placeholder)
qed

lemma split_escaped_one_dot:
  "d \<noteq> CHR ''.'' \<Longrightarrow> split_escaped (CHR ''.'' # d # cs) = [] # split_escaped (d # cs)"
  by (simp add: split_escaped_def placeholder_def)

lemma split_escaped_other_length:
  assumes "c \<noteq> CHR ''.''"
  shows "length (split_escaped (c # cs)) = length (split_escaped cs)"
proof -
  obtain w ws where w: "str_split (CHR ''.'') (str_replace ''..'' placeholder cs) = w # ws"
    using str_split_nonempty by (meson list.exhaust)
  show ?thesis
    unfolding split_escaped_def protect_other [OF assms] split_not_dot [OF assms] w
    by simp
qed

lemma split_escaped_length: "length (split_escaped p) = length (path_segments p)"
proof (induction p rule: path_segments.induct)
  case 1
  show ?case by (simp add: split_escaped_def)
next
  case (2 c)
  show ?case by (simp add: split_escaped_def)
next
  case (3 c d cs)
  consider (two) "c = CHR ''.''" "d = CHR ''.''" | (one) "c = CHR ''.''" "d \<noteq> CHR ''.''" | (other) "c \<noteq> CHR ''.''"
    by blast
  then show ?case
  proof cases
    case two
    with 3 have "length (split_escaped cs) = length (path_segments cs)" by simp
    with two show ?thesis
      by (simp add: split_escaped_two_dots length_cons_first split_escaped_nonempty path_segments_nonempty)
  next
    case one
    with 3 have "length (split_escaped (d # cs)) = length (path_segments (d # cs))" by simp
    with one show ?thesis
      by (simp add: split_escaped_one_dot)
  next
    case other
    with 3 have "length (split_escaped (d # cs)) = length (path_segments (d # cs))" by simp
    with other show ?thesis
      by (simp add: split_escaped_other_length length_cons_first path_segments_nonempty)
  qed
qed

lemma split_prefix: "str_split sep s = w # ws \<Longrightarrow> take (length w) s = w"
proof (induction s arbitrary: w ws)
  case Nil
  then show ?case by simp
next
  case (Cons c s)
  show ?case
  proof (cases "c = sep")
    case True
    with Cons.prems show ?thesis by auto
  next
    case False
    obtain w' ws' where w': "str_split sep s = w' # ws'"
      using str_split_nonempty by (meson list.exhaust)
    with False Cons.prems have "w = c # w'" by simp
    with Cons.IH [OF w'] show ?thesis by simp
  qed
qed

lemma protect_prefix:
  "\<forall>x \<in> set q. x \<noteq> CHR ''.'' \<and> x \<noteq> CHR ''K'' \<Longrightarrow> take (length q) (str_replace ''..'' placeholder s) = q
   \<Longrightarrow> take (length q) s = q"
proof (induction q arbitrary: s)
  case Nil
  then show ?case by simp
next
  case (Cons x q)
  show ?case
  proof (cases s)
    case Nil
    with Cons.prems show ?thesis by simp
  next
    case (Cons a as)
    show ?thesis
    proof (cases "take 2 s = ''..''")
      case True
      then have "str_replace ''..'' placeholder s = placeholder @ str_replace ''..'' placeholder (drop 2 s)"
        using Cons by simp
      with Cons.prems show ?thesis
        by (simp add: placeholder_def)
    next
      case False
      then have r: "str_replace ''..'' placeholder s = a # str_replace ''..'' placeholder as"
        using Cons by auto
      with Cons.prems have "x = a" and "take (length q) (str_replace ''..'' placeholder as) = q"
        by simp_all
      with Cons.IH [of as] Cons.prems(1) Cons show ?thesis
        by simp
    qed
  qed
qed

lemma has_sub_suffix: "\<not> has_sub w (c # cs) \<Longrightarrow> \<not> has_sub w cs"
  by simp

lemma take_of_prefix: "take (length w) s = w \<Longrightarrow> n \<le> length w \<Longrightarrow> take n s = take n w"
proof -
  assume w: "take (length w) s = w" and n: "n \<le> length w"
  have "take n w = take n (take (length w) s)"
    by (simp only: w)
  also have "\<dots> = take (min n (length w)) s"
    by (rule take_take)
  also have "\<dots> = take n s"
    using n by (simp add: min_def)
  finally show ?thesis
    by simp
qed

lemma placeholder_nonempty: "placeholder \<noteq> []"
  by (simp add: placeholder_def)

lemma restore_other:
  assumes nosub: "\<not> has_sub placeholder (c # s)"
    and w: "str_split (CHR ''.'') (str_replace ''..'' placeholder s) = w # ws"
  shows "str_replace placeholder ''.'' (c # w) = c # str_replace placeholder ''.'' w"
proof -
  let ?q = "''QypbNUMED''"
  have ph: "placeholder = CHR ''K'' # ?q"
    by (simp add: placeholder_def)
  have "take (length placeholder) (c # w) \<noteq> placeholder"
  proof
    assume eq: "take (length placeholder) (c # w) = placeholder"
    then have c: "c = CHR ''K''" and q: "take (length ?q) w = ?q"
      by (simp_all add: ph)
    have "length (take (length ?q) w) = length ?q"
      by (simp only: q)
    then have len: "length ?q \<le> length w"
      by simp
    have "take (length w) (str_replace ''..'' placeholder s) = w"
      by (rule split_prefix [OF w])
    then have "take (length ?q) (str_replace ''..'' placeholder s) = take (length ?q) w"
      using len by (rule take_of_prefix)
    also note q
    finally have "take (length ?q) s = ?q"
      by (rule protect_prefix [rotated]) simp
    then have "take (length placeholder) (c # s) = placeholder"
      using c by (simp add: ph)
    with nosub show False
      by simp
  qed
  then show ?thesis
    by (simp add: placeholder_nonempty)
qed

lemma split_escaped_other:
  assumes "c \<noteq> CHR ''.''" and "\<not> has_sub placeholder (c # s)"
  shows "split_escaped (c # s) = cons_first c (split_escaped s)"
proof -
  obtain w ws where w: "str_split (CHR ''.'') (str_replace ''..'' placeholder s) = w # ws"
    using str_split_nonempty by (meson list.exhaust)
  show ?thesis
    unfolding split_escaped_def protect_other [OF assms(1)] split_not_dot [OF assms(1)] w
    using restore_other [OF assms(2) w] by simp
qed

lemma split_escaped_segments: "\<not> has_sub placeholder p \<Longrightarrow> split_escaped p = path_segments p"
proof (induction p rule: path_segments.induct)
  case 1
  then show ?case by (simp add: split_escaped_def placeholder_def)
next
  case (2 c)
  then show ?case by (simp add: split_escaped_def placeholder_def)
next
  case (3 c d cs)
  from "3.prems" have sub1: "\<not> has_sub placeholder (d # cs)" and sub2: "\<not> has_sub placeholder cs"
    by simp_all
  consider (two) "c = CHR ''.''" "d = CHR ''.''" | (one) "c = CHR ''.''" "d \<noteq> CHR ''.''" | (other) "c \<noteq> CHR ''.''"
    by blast
  then show ?case
  proof cases
    case two
    with 3 sub2 have "split_escaped cs = path_segments cs" by simp
    with two show ?thesis
      by (simp add: split_escaped_two_dots)
  next
    case one
    with 3 sub1 have "split_escaped (d # cs) = path_segments (d # cs)" by simp
    with one show ?thesis
      by (simp add: split_escaped_one_dot)
  next
    case other
    with 3 sub1 have "split_escaped (d # cs) = path_segments (d # cs)" by simp
    with other "3.prems" show ?thesis
      by (simp add: split_escaped_other)
  qed
qed

text \<open>
  C6: the path \<open>a..b.c\<close> is split into \<open>a.b\<close> and \<open>c\<close>, so on the root
  \<open>{"a.b": {"c": 1}}\<close> the read of \<open>a..b.c\<close> returns 1 and the read of \<open>a.b.c\<close> returns
  None. In general \<open>split_escaped\<close> cuts every path where the grammar above cuts it (two
  dots in a row are never two separators), and on a path that does not contain the
  reserved placeholder text its segments are the grammar's segments, each pair of dots
  one literal dot.
\<close>

theorem split_escaped_escape:
  "split_escaped ''a..b.c'' = [''a.b'', ''c'']
   \<and> trav_find \<lparr>tvalue = PDict [(''a.b'', PDict [(''c'', PInt 1)])], tfilter = None\<rparr> ''a..b.c''
       = Inr (Raw (PInt 1))
   \<and> trav_find \<lparr>tvalue = PDict [(''a.b'', PDict [(''c'', PInt 1)])], tfilter = None\<rparr> ''a.b.c''
       = Inr (Raw PNone)
   \<and> length (split_escaped p) = length (path_segments p)
   \<and> (\<not> has_sub placeholder p \<longrightarrow> split_escaped p = path_segments p)"
proof -
  have "split_escaped ''a..b.c'' = [''a.b'', ''c'']"
    by code_simp
  moreover have "trav_find \<lparr>tvalue = PDict [(''a.b'', PDict [(''c'', PInt 1)])], tfilter = None\<rparr>
      ''a..b.c'' = Inr (Raw (PInt 1))"
    by code_simp
  moreover have "trav_find \<lparr>tvalue = PDict [(''a.b'', PDict [(''c'', PInt 1)])], tfilter = None\<rparr>
      ''a.b.c'' = Inr (Raw PNone)"
    by code_simp
  ultimately show ?thesis
    using split_escaped_length [of p] split_escaped_segments [of p] by blast
qed

theorem split_escaped_escape_witness:
  "\<not> has_sub placeholder ''x...y..'' \<and> split_escaped ''x...y..'' = [''x.'', ''y.'']
   \<and> path_segments ''x...y..'' = [''x.'', ''y.'']"
proof -
  have h: "\<not> has_sub placeholder ''x...y..''"
    by (simp add: placeholder_def)
  have "path_segments ''x...y..'' = [''x.'', ''y.'']"
    by simp
  with h split_escaped_escape [of "''x...y..''"] show ?thesis
    by simp
qed

section \<open>Filter equality\<close>

lemma set_str_insert: "set (str_insert s ts) = insert s (set ts)"
  by (induction ts) auto

lemma set_py_sorted: "set (py_sorted ss) = set ss"
  by (induction ss) (auto simp: py_sorted_def set_str_insert)

lemma key_in_Nil: "\<not> key_in k []"
  by (simp add: key_in_def)

lemma set_filter_keys: "set (filter_keys f ks) = {k \<in> set ks. retained f k}"
  by (auto simp: filter_keys_def retained_def Let_def key_in_Nil)

lemma filter_keys_eq: "filter_keys f ks = [k \<leftarrow> ks. retained f k]"
  by (auto simp: filter_keys_def retained_def Let_def key_in_Nil intro: filter_cong)

lemma map_of_key: "k \<in> fst ` set kvs \<Longrightarrow> \<exists>v. map_of kvs k = Some v"
  by (induction kvs) auto

lemma dict_item_Some: "map_of kvs k = Some v \<Longrightarrow> dict_item kvs k = v"
  by (simp add: dict_item_def)

lemma are_equal_dicts:
  "are_equal f (PDict l) (PDict r) =
     (filter_keys f (py_sorted (map fst l)) = filter_keys f (py_sorted (map fst r))
      \<and> (\<forall>k \<in> set (map fst l). retained f k \<longrightarrow>
            (\<exists>v w. map_of l k = Some v \<and> map_of r k = Some w \<and> are_equal f v w)))"
proof (cases "filter_keys f (py_sorted (map fst l)) = filter_keys f (py_sorted (map fst r))")
  case False
  then show ?thesis
    by (simp add: Let_def)
next
  case True
  have keys: "k \<in> set (map fst l) \<and> retained f k \<longleftrightarrow> k \<in> set (filter_keys f (py_sorted (map fst l)))" for k
    by (simp add: set_filter_keys set_py_sorted)
  have both: "\<exists>v w. map_of l k = Some v \<and> map_of r k = Some w"
    if "k \<in> set (filter_keys f (py_sorted (map fst l)))" for k
  proof -
    from that have "k \<in> fst ` set l"
      by (simp add: set_filter_keys set_py_sorted)
    moreover from that True have "k \<in> fst ` set r"
      by (simp add: set_filter_keys set_py_sorted)
    ultimately show ?thesis
      using map_of_key by metis
  qed
  have "list_all (\<lambda>key. are_equal f (dict_item l key) (dict_item r key))
          (filter_keys f (py_sorted (map fst l)))
        \<longleftrightarrow> (\<forall>k \<in> set (map fst l). retained f k \<longrightarrow>
            (\<exists>v w. map_of l k = Some v \<and> map_of r k = Some w \<and> are_equal f v w))"
    (is "?L \<longleftrightarrow> ?R")
  proof
    assume l: ?L
    show ?R
    proof (intro ballI impI)
      fix k assume "k \<in> set (map fst l)" "retained f k"
      then have k: "k \<in> set (filter_keys f (py_sorted (map fst l)))"
        using keys by blast
      from both [OF k] obtain v w where vw: "map_of l k = Some v" "map_of r k = Some w"
        by blast
      from l k have "are_equal f (dict_item l k) (dict_item r k)"
        by (simp add: list_all_iff)
      with vw show "\<exists>v w. map_of l k = Some v \<and> map_of r k = Some w \<and> are_equal f v w"
        by (simp add: dict_item_Some)
    qed
  next
    assume r: ?R
    show ?L
      unfolding list_all_iff
    proof
      fix k assume k: "k \<in> set (filter_keys f (py_sorted (map fst l)))"
      then have "k \<in> set (map fst l)" "retained f k"
        using keys by blast+
      with r obtain v w where "map_of l k = Some v" "map_of r k = Some w" "are_equal f v w"
        by blast
      then show "are_equal f (dict_item l k) (dict_item r k)"
        by (simp add: dict_item_Some)
    qed
  qed
  with True show ?thesis
    by (simp add: Let_def)
qed

lemma str_less_asym: "str_less a b \<Longrightarrow> \<not> str_less b a"
  by (induction a b rule: str_less.induct) auto

lemma str_less_cotrans: "str_less a c \<Longrightarrow> str_less a b \<or> str_less b c"
proof (induction a c arbitrary: b rule: str_less.induct)
  case (2 y ys)
  then show ?case by (cases b) auto
next
  case (4 x xs y ys)
  show ?case
  proof (cases b)
    case Nil
    then show ?thesis by simp
  next
    case (Cons z zs)
    with 4 show ?thesis
      by (auto simp: not_less less_le)
  qed
qed simp_all

lemma str_insert_sorted:
  "sorted_wrt (\<lambda>a b. \<not> str_less b a) ts \<Longrightarrow> sorted_wrt (\<lambda>a b. \<not> str_less b a) (str_insert s ts)"
proof (induction ts)
  case Nil
  then show ?case by simp
next
  case (Cons t ts)
  have set: "set (str_insert s ts) = insert s (set ts)"
    by (induction ts) auto
  show ?case
  proof (cases "str_less t s")
    case True
    with Cons set show ?thesis
      by (auto dest: str_less_asym)
  next
    case False
    have "\<not> str_less u s" if "u \<in> set ts" for u
    proof
      assume "str_less u s"
      then have "str_less u t \<or> str_less t s"
        by (rule str_less_cotrans)
      with False Cons.prems that show False
        by auto
    qed
    with False Cons.prems show ?thesis
      by auto
  qed
qed

lemma py_sorted_sorted: "sorted_wrt (\<lambda>a b. \<not> str_less b a) (py_sorted ss)"
  by (induction ss) (simp_all add: py_sorted_def str_insert_sorted)

lemma length_str_insert: "length (str_insert s ts) = Suc (length ts)"
  by (induction ts) auto

lemma length_py_sorted: "length (py_sorted ss) = length ss"
  by (induction ss) (simp_all add: py_sorted_def length_str_insert)

lemma are_equal_lists:
  "are_equal f (PList xs) (PList ys)
   = (length xs = length ys \<and> (\<forall>i < length xs. are_equal f (xs ! i) (ys ! i)))"
  by (auto simp: list_all_iff)

lemma are_equal_fallback:
  "\<not> (is_list a \<and> is_list b) \<Longrightarrow> \<not> (is_dict a \<and> is_dict b) \<Longrightarrow> are_equal f a b = py_eq a b"
  by (cases a; cases b) simp_all

lemma trav_eq_filter:
  "trav_eq \<lparr>tvalue = a, tfilter = Some f\<rparr> other = are_equal f a (unwrap_value other)"
  by (simp add: trav_eq_def)

lemma trav_eq_no_filter:
  "trav_eq \<lparr>tvalue = a, tfilter = None\<rparr> other = py_eq a (unwrap_value other)"
  by (simp add: trav_eq_def)

text \<open>
  C7: on two dicts, \<open>are_equal\<close> sorts each side's keys, filters each side by the
  blacklist and then the whitelist, requires the two filtered key sequences to be the same,
  and then requires the values under every retained key to be equal in the same sense; the
  filtered sequence of a side holds exactly its retained keys, and the sorted keys are in
  ascending order. Equal in the same sense: two lists are compared by length and position
  by position, and any other pair of values by Python's \<open>==\<close>. \<open>Traverser.__eq__\<close> is
  \<open>are_equal\<close> of the attached filter, and \<open>==\<close> with none attached. With
  \<open>Filter(blacklist=["id"])\<close> attached, \<open>{"id": 1, "x": 2}\<close> equals \<open>{"id": 9, "x": 2}\<close>
  and differs from \<open>{"id": 9, "x": 3}\<close> (a retained key with another value) and from
  \<open>{"id": 9, "x": 2, "y": 0}\<close> (another retained key); with no filter attached
  \<open>{"id": 1, "x": 2}\<close> does not equal \<open>{"id": 9, "x": 2}\<close>.
\<close>

theorem are_equal_mappings:
  "are_equal f (PDict l) (PDict r) =
     (filter_keys f (py_sorted (map fst l)) = filter_keys f (py_sorted (map fst r))
      \<and> (\<forall>k \<in> set (map fst l). retained f k \<longrightarrow>
            (\<exists>v w. map_of l k = Some v \<and> map_of r k = Some w \<and> are_equal f v w)))
   \<and> set (filter_keys f (py_sorted (map fst l))) = {k \<in> set (map fst l). retained f k}
   \<and> sorted_wrt (\<lambda>a b. \<not> str_less b a) (py_sorted (map fst l))
   \<and> are_equal f (PList xs) (PList ys)
       = (length xs = length ys \<and> (\<forall>i < length xs. are_equal f (xs ! i) (ys ! i)))
   \<and> (\<not> (is_list a \<and> is_list b) \<and> \<not> (is_dict a \<and> is_dict b)
        \<longrightarrow> are_equal f a b = py_eq a b)
   \<and> trav_eq \<lparr>tvalue = a, tfilter = Some f\<rparr> other = are_equal f a (unwrap_value other)
   \<and> trav_eq \<lparr>tvalue = a, tfilter = None\<rparr> other = py_eq a (unwrap_value other)
   \<and> trav_eq \<lparr>tvalue = PDict [(''id'', PInt 1), (''x'', PInt 2)],
               tfilter = Some (Filter_init (PList [PStr ''id'']) PNone)\<rparr>
         (Plain (PDict [(''id'', PInt 9), (''x'', PInt 2)]))
   \<and> \<not> trav_eq \<lparr>tvalue = PDict [(''id'', PInt 1), (''x'', PInt 2)],
               tfilter = Some (Filter_init (PList [PStr ''id'']) PNone)\<rparr>
         (Plain (PDict [(''id'', PInt 9), (''x'', PInt 3)]))
   \<and> \<not> trav_eq \<lparr>tvalue = PDict [(''id'', PInt 1), (''x'', PInt 2)],
               tfilter = Some (Filter_init (PList [PStr ''id'']) PNone)\<rparr>
         (Plain (PDict [(''id'', PInt 9), (''x'', PInt 2), (''y'', PInt 0)]))
   \<and> \<not> trav_eq \<lparr>tvalue = PDict [(''id'', PInt 1), (''x'', PInt 2)], tfilter = None\<rparr>
         (Plain (PDict [(''id'', PInt 9), (''x'', PInt 2)]))"
proof -
  let ?fb = "Filter_init (PList [PStr ''id'']) PNone"
  let ?t = "\<lparr>tvalue = PDict [(''id'', PInt 1), (''x'', PInt 2)], tfilter = Some ?fb\<rparr>"
  have e1: "trav_eq ?t (Plain (PDict [(''id'', PInt 9), (''x'', PInt 2)]))"
    by code_simp
  have e2: "\<not> trav_eq ?t (Plain (PDict [(''id'', PInt 9), (''x'', PInt 3)]))"
    by code_simp
  have e3: "\<not> trav_eq ?t (Plain (PDict [(''id'', PInt 9), (''x'', PInt 2), (''y'', PInt 0)]))"
    by code_simp
  have e4: "\<not> trav_eq \<lparr>tvalue = PDict [(''id'', PInt 1), (''x'', PInt 2)], tfilter = None\<rparr>
         (Plain (PDict [(''id'', PInt 9), (''x'', PInt 2)]))"
    by code_simp
  have keys: "set (filter_keys f (py_sorted (map fst l))) = {k \<in> set (map fst l). retained f k}"
    by (simp only: set_filter_keys set_py_sorted)
  have fb: "\<not> (is_list a \<and> is_list b) \<and> \<not> (is_dict a \<and> is_dict b)
        \<longrightarrow> are_equal f a b = py_eq a b"
    using are_equal_fallback [of a b f] by blast
  from are_equal_dicts [of f l r] keys py_sorted_sorted [of "map fst l"]
    are_equal_lists [of f xs ys] fb trav_eq_filter [of a f other] trav_eq_no_filter [of a other]
    e1 e2 e3 e4
  show ?thesis
    by (intro conjI)
qed

theorem are_equal_mappings_witness:
  "are_equal (Filter_init (PList [PStr ''id'']) (PStr ''x''))
     (PDict [(''x'', PList [PInt 2]), (''id'', PInt 1), (''y'', PInt 0)])
     (PDict [(''id'', PInt 9), (''x'', PList [PInt 2])])
   \<and> \<not> are_equal (Filter_init (PList [PStr ''id'']) (PStr ''x''))
     (PDict [(''x'', PList [PInt 2]), (''id'', PInt 1), (''y'', PInt 0)])
     (PDict [(''id'', PInt 9), (''x'', PList [PInt 3])])
   \<and> retained (Filter_init (PList [PStr ''id'']) (PStr ''x'')) ''x''
   \<and> \<not> retained (Filter_init (PList [PStr ''id'']) (PStr ''x'')) ''id''
   \<and> \<not> retained (Filter_init (PList [PStr ''id'']) (PStr ''x'')) ''y''
   \<and> are_equal (Filter_init (PList [PStr ''id'']) (PStr ''x'')) (PList [PInt 2]) (PList [PInt 2])
   \<and> \<not> are_equal (Filter_init (PList [PStr ''id'']) (PStr ''x'')) (PList [PInt 2]) (PList [PInt 3])
   \<and> \<not> (is_list (PInt 2) \<and> is_list (PInt 3)) \<and> \<not> (is_dict (PInt 2) \<and> is_dict (PInt 3))
   \<and> \<not> are_equal (Filter_init (PList [PStr ''id'']) (PStr ''x'')) (PInt 2) (PInt 3)
   \<and> are_equal (Filter_init (PList [PStr ''id'']) (PStr ''x'')) (PInt 2) (PInt 2)"
proof -
  let ?f = "Filter_init (PList [PStr ''id'']) (PStr ''x'')"
  let ?l = "[(''x'', PList [PInt 2]), (''id'', PInt 1), (''y'', PInt 0)]"
  let ?r = "[(''id'', PInt 9), (''x'', PList [PInt 2])]"
  let ?r3 = "[(''id'', PInt 9), (''x'', PList [PInt 3])]"
  have x: "retained ?f ''x''" and i: "\<not> retained ?f ''id''" and y: "\<not> retained ?f ''y''"
    by (simp_all add: retained_def Filter_init_def key_in_def)
  have keys: "filter_keys ?f (py_sorted (map fst ?l)) = filter_keys ?f (py_sorted (map fst ?r))"
    by code_simp
  have keys3: "filter_keys ?f (py_sorted (map fst ?l)) = filter_keys ?f (py_sorted (map fst ?r3))"
    by code_simp
  have sh: "\<not> (is_list (PInt 2) \<and> is_list (PInt 3))" "\<not> (is_dict (PInt 2) \<and> is_dict (PInt 3))"
      "\<not> (is_list (PInt 2) \<and> is_list (PInt 2))" "\<not> (is_dict (PInt 2) \<and> is_dict (PInt 2))"
    by simp_all
  note leaf23 = are_equal_mappings [where f = ?f and a = "PInt 2" and b = "PInt 3"]
  note leaf22 = are_equal_mappings [where f = ?f and a = "PInt 2" and b = "PInt 2"]
  from leaf23 sh have n23: "\<not> are_equal ?f (PInt 2) (PInt 3)"
    by simp
  from leaf22 sh have p22: "are_equal ?f (PInt 2) (PInt 2)"
    by simp
  note lists22 = are_equal_mappings [where f = ?f and xs = "[PInt 2]" and ys = "[PInt 2]"]
  note lists23 = are_equal_mappings [where f = ?f and xs = "[PInt 2]" and ys = "[PInt 3]"]
  from lists22 p22 have vals: "are_equal ?f (PList [PInt 2]) (PList [PInt 2])"
    by simp
  from lists23 n23 have nvals: "\<not> are_equal ?f (PList [PInt 2]) (PList [PInt 3])"
    by simp
  note dicts = are_equal_mappings [where f = ?f and l = ?l and r = ?r]
  note dicts3 = are_equal_mappings [where f = ?f and l = ?l and r = ?r3]
  from dicts keys vals x i y have eq: "are_equal ?f (PDict ?l) (PDict ?r)"
    by simp
  from dicts3 keys3 nvals x i y have neq: "\<not> are_equal ?f (PDict ?l) (PDict ?r3)"
    by simp
  from eq neq x i y vals nvals sh(1) sh(2) n23 p22 show ?thesis
    by (intro conjI)
qed

section \<open>Pruning\<close>

lemma dict_set_middle:
  "k \<notin> fst ` set a \<Longrightarrow> dict_set (a @ (k, v) # b) k x = a @ (k, x) # b"
  by (induction a) auto

lemma dict_del_middle:
  "k \<notin> fst ` set a \<Longrightarrow> dict_del (a @ (k, v) # b) k = a @ b"
  by (induction a) auto

lemma prune_loop:
  "distinct (map fst (done @ todo)) \<Longrightarrow>
   foldl (\<lambda>d (key, item). if key \<in> K then dict_set d key (h item) else dict_del d key)
     (map (\<lambda>(k, v). (k, h v)) [(k, v) \<leftarrow> done. k \<in> K] @ todo) todo
   = map (\<lambda>(k, v). (k, h v)) [(k, v) \<leftarrow> done @ todo. k \<in> K]"
proof (induction todo arbitrary: "done")
  case Nil
  then show ?case by simp
next
  case (Cons kv todo)
  obtain k v where kv: "kv = (k, v)"
    by (cases kv)
  let ?g = "\<lambda>xs. map (\<lambda>(k, v). (k, h v)) [(k, v) \<leftarrow> xs. k \<in> K]"
  from Cons.prems kv have fresh: "k \<notin> fst ` set (?g done)"
    by (auto simp: image_iff)
  from Cons.prems kv have dist: "distinct (map fst ((done @ [(k, v)]) @ todo))"
    by simp
  show ?case
  proof (cases "k \<in> K")
    case True
    have "dict_set (?g done @ (k, v) # todo) k (h v) = ?g (done @ [(k, v)]) @ todo"
      using True dict_set_middle [OF fresh] by simp
    with True kv Cons.IH [OF dist] show ?thesis
      by simp
  next
    case False
    have "dict_del (?g done @ (k, v) # todo) k = ?g (done @ [(k, v)]) @ todo"
      using False dict_del_middle [OF fresh] by simp
    with False kv Cons.IH [OF dist] show ?thesis
      by simp
  qed
qed

lemma prune_dict:
  assumes "distinct (map fst kvs)"
  shows "prune f (PDict kvs) = PDict (map (\<lambda>(k, v). (k, prune f v)) [(k, v) \<leftarrow> kvs. retained f k])"
proof -
  let ?K = "set (filter_keys f (map fst kvs))"
  have "foldl (\<lambda>d (key, item). if key \<in> ?K then dict_set d key (prune f item) else dict_del d key)
          kvs kvs
        = map (\<lambda>(k, v). (k, prune f v)) [(k, v) \<leftarrow> kvs. k \<in> ?K]"
    using prune_loop [of "[]" kvs ?K "prune f"] assms by simp
  moreover have "[(k, v) \<leftarrow> kvs. k \<in> ?K] = [(k, v) \<leftarrow> kvs. retained f k]"
    by (rule filter_cong) (force simp: filter_keys_eq)+
  ultimately show ?thesis
    by (simp add: Let_def)
qed

lemma map_of_pruned:
  "map_of (map (\<lambda>(k, v). (k, h v)) [(k, v) \<leftarrow> kvs. P k]) k
   = (if P k then map_option h (map_of kvs k) else None)"
  by (induction kvs) auto

lemma keys_pruned:
  "map fst (map (\<lambda>(k, v). (k, h v)) [(k, v) \<leftarrow> kvs. P k]) = [k \<leftarrow> map fst kvs. P k]"
  by (induction kvs) auto

lemma prune_scalar: "\<not> traversable v \<Longrightarrow> prune f v = v"
  by (cases v) auto

text \<open>
  C8: \<open>Filter.prune\<close> leaves a scalar as it is; in a list it prunes every element and
  removes none; in a dict it deletes every key that is not retained (blacklist first, then
  whitelist), keeps the retained keys in their order and prunes the value under each of
  them. \<open>Filter(blacklist=["id"]).prune\<close> turns \<open>{"id": 1, "y": {"id": 2, "z": 3}}\<close> into
  \<open>{"y": {"z": 3}}\<close>, also through \<open>Traverser.prune\<close> with the filter attached.
\<close>

theorem prune_in_place:
  "(\<not> traversable v \<longrightarrow> prune f v = v)
   \<and> (\<exists>ys. prune f (PList xs) = PList ys \<and> length ys = length xs
          \<and> (\<forall>i < length xs. ys ! i = prune f (xs ! i)))
   \<and> (distinct (map fst kvs) \<longrightarrow>
        (\<exists>kvs'. prune f (PDict kvs) = PDict kvs'
           \<and> map fst kvs' = [k \<leftarrow> map fst kvs. retained f k]
           \<and> (\<forall>k. map_of kvs' k
                  = (if retained f k then map_option (prune f) (map_of kvs k) else None))))
   \<and> prune (Filter_init (PList [PStr ''id'']) PNone)
         (PDict [(''id'', PInt 1), (''y'', PDict [(''id'', PInt 2), (''z'', PInt 3)])])
       = PDict [(''y'', PDict [(''z'', PInt 3)])]
   \<and> tvalue (trav_prune
         \<lparr>tvalue = PDict [(''id'', PInt 1), (''y'', PDict [(''id'', PInt 2), (''z'', PInt 3)])],
          tfilter = Some (Filter_init (PList [PStr ''id'']) PNone)\<rparr> None)
       = PDict [(''y'', PDict [(''z'', PInt 3)])]"
proof -
  have scalar: "\<not> traversable v \<longrightarrow> prune f v = v"
    by (simp add: prune_scalar)
  have list: "\<exists>ys. prune f (PList xs) = PList ys \<and> length ys = length xs
          \<and> (\<forall>i < length xs. ys ! i = prune f (xs ! i))"
    by simp
  have dict: "distinct (map fst kvs) \<longrightarrow>
        (\<exists>kvs'. prune f (PDict kvs) = PDict kvs'
           \<and> map fst kvs' = [k \<leftarrow> map fst kvs. retained f k]
           \<and> (\<forall>k. map_of kvs' k
                  = (if retained f k then map_option (prune f) (map_of kvs k) else None)))"
  proof
    assume "distinct (map fst kvs)"
    then have "prune f (PDict kvs)
        = PDict (map (\<lambda>(k, v). (k, prune f v)) [(k, v) \<leftarrow> kvs. retained f k])"
      by (rule prune_dict)
    then show "\<exists>kvs'. prune f (PDict kvs) = PDict kvs'
           \<and> map fst kvs' = [k \<leftarrow> map fst kvs. retained f k]
           \<and> (\<forall>k. map_of kvs' k
                  = (if retained f k then map_option (prune f) (map_of kvs k) else None))"
      using keys_pruned [of "prune f" "retained f" kvs] map_of_pruned [of "prune f" "retained f" kvs]
      by blast
  qed
  have ex1: "prune (Filter_init (PList [PStr ''id'']) PNone)
         (PDict [(''id'', PInt 1), (''y'', PDict [(''id'', PInt 2), (''z'', PInt 3)])])
       = PDict [(''y'', PDict [(''z'', PInt 3)])]"
    by code_simp
  have ex2: "tvalue (trav_prune
         \<lparr>tvalue = PDict [(''id'', PInt 1), (''y'', PDict [(''id'', PInt 2), (''z'', PInt 3)])],
          tfilter = Some (Filter_init (PList [PStr ''id'']) PNone)\<rparr> None)
       = PDict [(''y'', PDict [(''z'', PInt 3)])]"
    by code_simp
  from scalar list dict ex1 ex2 show ?thesis
    by (intro conjI)
qed

theorem prune_in_place_witness:
  "distinct (map fst [(''id'', PInt 1), (''y'', PList [PDict [(''id'', PInt 2)], PInt 4])])
   \<and> \<not> traversable (PInt 4)
   \<and> prune (Filter_init (PList [PStr ''id'']) PNone) (PInt 4) = PInt 4
   \<and> (\<exists>kvs'. prune (Filter_init (PList [PStr ''id'']) PNone)
                (PDict [(''id'', PInt 1), (''y'', PList [PDict [(''id'', PInt 2)], PInt 4])])
              = PDict kvs'
          \<and> map fst kvs' = [''y'']
          \<and> map_of kvs' ''id'' = None
          \<and> map_of kvs' ''y''
              = Some (prune (Filter_init (PList [PStr ''id'']) PNone)
                        (PList [PDict [(''id'', PInt 2)], PInt 4])))
   \<and> (\<exists>ys. prune (Filter_init (PList [PStr ''id'']) PNone) (PList [PDict [(''id'', PInt 2)], PInt 4])
              = PList ys
          \<and> length ys = 2
          \<and> ys ! 1 = prune (Filter_init (PList [PStr ''id'']) PNone) (PInt 4))"
proof -
  let ?f = "Filter_init (PList [PStr ''id'']) PNone"
  let ?xs = "[PDict [(''id'', PInt 2)], PInt 4]"
  let ?kvs = "[(''id'', PInt 1), (''y'', PList ?xs)]"
  have d: "distinct (map fst ?kvs)"
    by simp
  have s: "\<not> traversable (PInt 4)"
    by simp
  have y: "retained ?f ''y''" and i: "\<not> retained ?f ''id''"
    by (simp_all add: retained_def Filter_init_def key_in_def)
  note inst = prune_in_place [of "PInt 4" ?f ?xs ?kvs]
  from inst s have a: "prune ?f (PInt 4) = PInt 4"
    by blast
  from inst d obtain kvs' where k: "prune ?f (PDict ?kvs) = PDict kvs'"
      "map fst kvs' = [k \<leftarrow> map fst ?kvs. retained ?f k]"
      "\<forall>k. map_of kvs' k = (if retained ?f k then map_option (prune ?f) (map_of ?kvs k) else None)"
    by blast
  from k(2) y i have k2: "map fst kvs' = [''y'']"
    by simp
  from k(3) y i have k3: "map_of kvs' ''id'' = None"
      "map_of kvs' ''y'' = Some (prune ?f (PList ?xs))"
    by simp_all
  from inst obtain ys where l: "prune ?f (PList ?xs) = PList ys" "length ys = length ?xs"
      "\<forall>i < length ?xs. ys ! i = prune ?f (?xs ! i)"
    by blast
  from l(3) have l3: "ys ! 1 = prune ?f (PInt 4)"
    by simp
  from l(2) have l2: "length ys = 2"
    by simp
  have e1: "\<exists>kvs'. prune ?f (PDict ?kvs) = PDict kvs'
          \<and> map fst kvs' = [''y'']
          \<and> map_of kvs' ''id'' = None
          \<and> map_of kvs' ''y'' = Some (prune ?f (PList ?xs))"
  proof (intro exI conjI)
    show "prune ?f (PDict ?kvs) = PDict kvs'" by (rule k(1))
    show "map fst kvs' = [''y'']" by (rule k2)
    show "map_of kvs' ''id'' = None" by (rule k3(1))
    show "map_of kvs' ''y'' = Some (prune ?f (PList ?xs))" by (rule k3(2))
  qed
  have e2: "\<exists>ys. prune ?f (PList ?xs) = PList ys \<and> length ys = 2
          \<and> ys ! 1 = prune ?f (PInt 4)"
  proof (intro exI conjI)
    show "prune ?f (PList ?xs) = PList ys" by (rule l(1))
    show "length ys = 2" by (rule l2)
    show "ys ! 1 = prune ?f (PInt 4)" by (rule l3)
  qed
  from d s a e1 e2 show ?thesis
    by (intro conjI)
qed

section \<open>Writing to a list out of range\<close>

lemma recursively_unwrap_value_id: "recursively_unwrap_value v = v"
proof (induction v)
  case (PList xs)
  then show ?case by (simp add: map_idI)
next
  case (PDict kvs)
  have "map (\<lambda>(k, v). (k, recursively_unwrap_value v)) kvs = map (\<lambda>kv. kv) kvs"
  proof (rule map_cong [OF refl])
    fix kv assume mem: "kv \<in> set kvs"
    obtain k v where kv: "kv = (k, v)"
      by (cases kv)
    with mem PDict.IH [of kv v] have "recursively_unwrap_value v = v"
      by (simp add: snds.simps)
    with kv show "(case kv of (k, v) \<Rightarrow> (k, recursively_unwrap_value v)) = kv"
      by simp
  qed
  then show ?case by simp
qed simp_all

lemma map_of_map_entry:
  "map_of (map (\<lambda>(k', v). if k' = k then (k', F v) else (k', v)) kvs) x
   = (if x = k then map_option F (map_of kvs x) else map_of kvs x)"
  by (induction kvs) auto

lemma deref_snoc:
  "deref root c = Some (PDict kvs) \<Longrightarrow> deref root (c @ [k]) = map_of kvs k"
proof (induction root c rule: deref.induct)
  case (1 v)
  then show ?case by (simp split: option.splits)
next
  case (2 kvs' k' ks)
  then show ?case by (simp split: option.splits)
qed simp_all

lemma deref_put_same:
  "deref root c = Some old \<Longrightarrow> deref (put c new root) c = Some new"
proof (induction root c rule: deref.induct)
  case (2 kvs k ks)
  then show ?case by (simp add: map_of_map_entry split: option.splits)
qed simp_all

lemma deref_put_parent:
  "deref root c = Some (PDict kvs) \<Longrightarrow>
   deref (put (c @ [k]) new root) c
     = Some (PDict (map (\<lambda>(k', v). if k' = k then (k', new) else (k', v)) kvs))"
proof (induction root c rule: deref.induct)
  case (1 v)
  then show ?case by (auto intro: map_cong)
next
  case (2 kvs' k' ks)
  then show ?case by (simp add: map_of_map_entry split: option.splits)
qed simp_all

lemma put_put: "put c a (put c b root) = put c a root"
proof (induction c arbitrary: root)
  case Nil
  show ?case by simp
next
  case (Cons k ks)
  show ?case
  proof (cases root)
    case (PDict kvs)
    have "map (\<lambda>(k', v). if k' = k then (k', put ks a v) else (k', v))
            (map (\<lambda>(k', v). if k' = k then (k', put ks b v) else (k', v)) kvs)
          = map (\<lambda>(k', v). if k' = k then (k', put ks a v) else (k', v)) kvs"
      by (induction kvs) (auto simp: Cons.IH)
    with PDict show ?thesis by simp
  qed simp_all
qed


lemma view_value_deref: "deref root c = Some v \<Longrightarrow> view_value root c = v"
  by (simp add: view_value_def)

lemma append_step:
  assumes par: "deref root c = Some (PDict kvs)"
    and child: "map_of kvs k = Some (PList xs)"
    and seg: "py_int seg = Some i"
    and out: "int (length xs) \<le> \<bar>i\<bar>"
  shows "set_prepare root (View (c @ [k])) seg (Some (c, KStr k))
         = (put (c @ [k]) (PList (xs @ [PDict []])) root,
            Inr (View (c @ [k]), KInt (if 0 \<le> i then int (length xs) else 0)))"
    and "view_value (put (c @ [k]) (PList (xs @ [PDict []])) root) (c @ [k])
         = PList (xs @ [PDict []])"
proof -
  let ?root1 = "put (c @ [k]) (PList (xs @ [PDict []])) root"
  have d: "deref root (c @ [k]) = Some (PList xs)"
    using deref_snoc [OF par, of k] child by simp
  have v0: "view_value root (c @ [k]) = PList xs"
    by (rule view_value_deref [OF d])
  have vp: "view_value root c = PDict kvs"
    by (rule view_value_deref [OF par])
  have d1: "deref ?root1 (c @ [k]) = Some (PList (xs @ [PDict []]))"
    by (rule deref_put_same [OF d])
  show v1: "view_value ?root1 (c @ [k]) = PList (xs @ [PDict []])"
    by (rule view_value_deref [OF d1])
  have vp1: "view_value ?root1 c
      = PDict (map (\<lambda>(k', v). if k' = k then (k', PList (xs @ [PDict []])) else (k', v)) kvs)"
    by (rule view_value_deref [OF deref_put_parent [OF par]])
  have g0: "parent_get root (Some (c, KStr k)) = Inr (View (c @ [k]))"
    by (simp add: parent_get_def view_get_def vp child wrap_value_def)
  have g1: "parent_get ?root1 (Some (c, KStr k)) = Inr (View (c @ [k]))"
    by (simp add: parent_get_def view_get_def vp1 map_of_map_entry child wrap_value_def)
  have a: "node_append root (View (c @ [k])) (PDict []) = Inr ?root1"
    by (simp add: node_append_def v0)
  have l0: "view_len root (c @ [k]) = length xs"
    by (simp add: view_len_def v0)
  have l1: "view_len ?root1 (c @ [k]) = Suc (length xs)"
    by (simp add: view_len_def v1)
  show "set_prepare root (View (c @ [k])) seg (Some (c, KStr k))
         = (?root1, Inr (View (c @ [k]), KInt (if 0 \<le> i then int (length xs) else 0)))"
    using out by (simp add: set_prepare_def seg v0 l0 l1 g0 g1 a)
qed

lemma append_write:
  assumes par: "deref root c = Some (PDict kvs)"
    and child: "map_of kvs k = Some (PList xs)"
    and seg: "py_int seg = Some i"
    and out: "int (length xs) \<le> \<bar>i\<bar>"
  shows "set_node root (View (c @ [k])) [seg] (Some (c, KStr k)) v
         = (put (c @ [k]) (PList ((xs @ [PDict []])[(if 0 \<le> i then length xs else 0) := v])) root,
            None)"
proof -
  let ?root1 = "put (c @ [k]) (PList (xs @ [PDict []])) root"
  let ?j = "if 0 \<le> i then int (length xs) else 0"
  have pos: "list_pos (length (xs @ [PDict []])) ?j = Some (if 0 \<le> i then length xs else 0)"
    by (simp add: list_pos_def)
  have "view_setitem ?root1 (c @ [k]) (KInt ?j) v
        = Inr (put (c @ [k]) (PList ((xs @ [PDict []])[(if 0 \<le> i then length xs else 0) := v])) root)"
    unfolding view_setitem_def append_step(2) [OF assms]
    by (simp only: pyval.case pykey.case pos option.case recursively_unwrap_value_id put_put)
  then show ?thesis
    by (simp add: append_step(1) [OF assms])
qed

text \<open>
  C5 as the code has it: on \<open>{"a": [1]}\<close>, \<open>set("a.5", "v")\<close> makes \<open>a\<close> the two-element
  list \<open>[1, "v"]\<close>. In general, when the list \<open>xs\<close> under the key \<open>k\<close> of a dict view is
  reached with an integer segment \<open>i\<close> and \<open>|i| >= len(xs)\<close>, the step appends exactly one
  empty dict and goes on at index \<open>len(xs)\<close>, the appended element, if \<open>i >= 0\<close>, and at
  index 0 if \<open>i\<close> is negative; as the last step it stores the value at that index.
\<close>

theorem out_of_range_write_appends:
  "trav_set \<lparr>tvalue = PDict [(''a'', PList [PInt 1])], tfilter = None\<rparr> ''a.5'' (PStr ''v'')
     = (\<lparr>tvalue = PDict [(''a'', PList [PInt 1, PStr ''v''])], tfilter = None\<rparr>, None)
   \<and> (deref root c = Some (PDict kvs) \<and> map_of kvs k = Some (PList xs)
        \<and> py_int seg = Some i \<and> int (length xs) \<le> \<bar>i\<bar>
       \<longrightarrow>
         set_prepare root (View (c @ [k])) seg (Some (c, KStr k))
           = (put (c @ [k]) (PList (xs @ [PDict []])) root,
              Inr (View (c @ [k]), KInt (if 0 \<le> i then int (length xs) else 0)))
         \<and> view_value (put (c @ [k]) (PList (xs @ [PDict []])) root) (c @ [k])
           = PList (xs @ [PDict []])
         \<and> set_node root (View (c @ [k])) [seg] (Some (c, KStr k)) v
           = (put (c @ [k])
                (PList ((xs @ [PDict []])[(if 0 \<le> i then length xs else 0) := v])) root,
              None))"
proof -
  have "trav_set \<lparr>tvalue = PDict [(''a'', PList [PInt 1])], tfilter = None\<rparr> ''a.5'' (PStr ''v'')
     = (\<lparr>tvalue = PDict [(''a'', PList [PInt 1, PStr ''v''])], tfilter = None\<rparr>, None)"
    by code_simp
  then show ?thesis
    using append_step [of root c kvs k xs seg i] append_write [of root c kvs k xs seg i v]
    by blast
qed

theorem out_of_range_write_appends_witness:
  "deref (PDict [(''a'', PList [PInt 1])]) [] = Some (PDict [(''a'', PList [PInt 1])])
   \<and> map_of [(''a'', PList [PInt 1])] ''a'' = Some (PList [PInt 1])
   \<and> py_int ''-5'' = Some (- 5)
   \<and> int (length [PInt 1]) \<le> \<bar>- 5\<bar>
   \<and> set_node (PDict [(''a'', PList [PInt 1])]) (View [''a'']) [''-5''] (Some ([], KStr ''a''))
         (PStr ''v'')
       = (PDict [(''a'', PList [PStr ''v'', PDict []])], None)"
proof -
  have h1: "deref (PDict [(''a'', PList [PInt 1])]) [] = Some (PDict [(''a'', PList [PInt 1])])"
    by simp
  have h2: "map_of [(''a'', PList [PInt 1])] ''a'' = Some (PList [PInt 1])"
    by simp
  have h3: "py_int ''-5'' = Some (- 5)"
    by code_simp
  have h4: "int (length [PInt 1]) \<le> \<bar>- 5\<bar>"
    by simp
  from h1 h2 h3 h4
    out_of_range_write_appends [of "PDict [(''a'', PList [PInt 1])]" "[]"
      "[(''a'', PList [PInt 1])]" "''a''" "[PInt 1]" "''-5''" "- 5" "PStr ''v''"]
  have "set_node (PDict [(''a'', PList [PInt 1])]) (View ([] @ [''a''])) [''-5'']
          (Some ([], KStr ''a'')) (PStr ''v'')
        = (put ([] @ [''a''])
             (PList (([PInt 1] @ [PDict []])[(if (0::int) \<le> - 5 then length [PInt 1] else 0) := PStr ''v'']))
             (PDict [(''a'', PList [PInt 1])]),
           None)"
    by blast
  then have "set_node (PDict [(''a'', PList [PInt 1])]) (View [''a'']) [''-5'']
          (Some ([], KStr ''a'')) (PStr ''v'')
        = (PDict [(''a'', PList [PStr ''v'', PDict []])], None)"
    by simp
  with h1 h2 h3 h4 show ?thesis
    by (intro conjI)
qed

text \<open>
  The claim as it is stated fails on the code: with the negative index \<open>-5\<close> the value
  goes to index 0 and the appended element stays an empty dict, and after
  \<open>set("a.5", "v")\<close> the read \<open>get("a.1")\<close> returns None.
\<close>

theorem out_of_range_write_counterexample:
  "tvalue (fst (trav_set \<lparr>tvalue = PDict [(''a'', PList [PInt 1])], tfilter = None\<rparr>
                  ''a.-5'' (PStr ''v'')))
     = PDict [(''a'', PList [PStr ''v'', PDict []])]
   \<and> tvalue (fst (trav_set \<lparr>tvalue = PDict [(''a'', PList [PInt 1])], tfilter = None\<rparr>
                  ''a.-5'' (PStr ''v'')))
     \<noteq> PDict [(''a'', PList [PInt 1, PStr ''v''])]
   \<and> trav_find (fst (trav_set \<lparr>tvalue = PDict [(''a'', PList [PInt 1])], tfilter = None\<rparr>
                  ''a.5'' (PStr ''v''))) ''a.1''
     = Inr (Raw PNone)
   \<and> trav_find (fst (trav_set \<lparr>tvalue = PDict [(''a'', PList [PInt 1])], tfilter = None\<rparr>
                  ''a.5'' (PStr ''v''))) ''a.1''
     \<noteq> Inr (Raw (PStr ''v''))"
  by code_simp

section \<open>The wrapped value is a container\<close>

lemma put_traversable:
  "traversable root \<Longrightarrow> traversable new \<Longrightarrow> traversable (put c new root)"
  by (cases c; cases root) simp_all

lemma view_setitem_traversable:
  "traversable root \<Longrightarrow> view_setitem root c key x = Inr root1 \<Longrightarrow> traversable root1"
  by (auto simp: view_setitem_def put_traversable split: pyval.splits pykey.splits option.splits)

lemma node_append_traversable:
  "traversable root \<Longrightarrow> node_append root n item = Inr root1 \<Longrightarrow> traversable root1"
  by (auto simp: node_append_def put_traversable split: node.splits pyval.splits)

lemma parent_setitem_traversable:
  "traversable root \<Longrightarrow> parent_setitem root parent x = Inr root1 \<Longrightarrow> traversable root1"
  by (auto simp: parent_setitem_def split: option.splits dest: view_setitem_traversable)

lemma set_prepare_traversable:
  "traversable root \<Longrightarrow> set_prepare root node k parent = (root1, r) \<Longrightarrow> traversable root1"
  unfolding set_prepare_def
  by (auto split: option.splits node.splits sum.splits if_splits
      dest: parent_setitem_traversable node_append_traversable)

lemma set_node_traversable:
  "traversable root \<Longrightarrow> traversable (fst (set_node root node ks parent val))"
proof (induction ks arbitrary: root node parent)
  case Nil
  then show ?case by simp
next
  case (Cons k ks)
  obtain root1 r where p: "set_prepare root node k parent = (root1, r)"
    by (cases "set_prepare root node k parent")
  with Cons.prems have t1: "traversable root1"
    by (auto dest: set_prepare_traversable)
  show ?case
  proof (cases r)
    case (Inl e)
    with p t1 show ?thesis by simp
  next
    case (Inr nk)
    obtain node1 key1 where nk: "nk = (node1, key1)"
      by (cases nk)
    show ?thesis
    proof (cases node1)
      case (Raw v)
      with p Inr nk t1 show ?thesis by simp
    next
      case (View c1)
      show ?thesis
      proof (cases "ks = []")
        case True
        with p Inr nk View t1 show ?thesis
          by (auto split: sum.splits dest: view_setitem_traversable)
      next
        case False
        with p Inr nk View t1 Cons.IH [OF t1] show ?thesis
          by (auto split: sum.splits)
      qed
    qed
  qed
qed

lemma trav_set_traversable:
  "traversable (tvalue t) \<Longrightarrow> traversable (tvalue (fst (trav_set t path val)))"
  using set_node_traversable [of "tvalue t" "View []" "split_escaped path" None val]
  by (auto simp: trav_set_def view_set_def split: prod.splits)

lemma prune_traversable: "traversable v \<Longrightarrow> traversable (prune f v)"
  by (cases v) (simp_all add: Let_def)

lemma trav_prune_traversable:
  "traversable (tvalue t) \<Longrightarrow> traversable (tvalue (trav_prune t fo))"
  by (auto simp: trav_prune_def prune_traversable split: option.splits)

lemma trav_append_list: "traversable (tvalue (trav_append t x))"
  by (simp add: trav_append_def split: pyval.splits)

lemma trav_extend_list: "traversable (tvalue (trav_extend t x))"
  by (simp add: trav_extend_def Let_def split: pyval.splits)

lemma trav_append_replace:
  "\<not> is_list (tvalue t) \<Longrightarrow> tvalue (trav_append t x) = PList [tvalue t, unwrap_value x]"
  by (cases "tvalue t") (simp_all add: trav_append_def)

lemma trav_extend_replace:
  "\<not> is_list (tvalue t) \<Longrightarrow>
   tvalue (trav_extend t x) = PList ([tvalue t] @ ensure_list (unwrap_value x))"
  by (cases "tvalue t") (simp_all add: trav_extend_def Let_def)

lemma trav_setitem_traversable:
  "traversable (tvalue t) \<Longrightarrow> trav_setitem t key x = Inr t1 \<Longrightarrow> traversable (tvalue t1)"
  by (auto simp: trav_setitem_def split: sum.splits dest: view_setitem_traversable)

lemma trav_delitem_traversable:
  "trav_delitem t key = Inr t2 \<Longrightarrow> traversable (tvalue t2)"
  by (auto simp: trav_delitem_def split: pyval.splits pykey.splits option.splits if_splits)

lemma trav_call_traversable:
  "traversable (tvalue t) \<Longrightarrow> traversable (tvalue (fst (trav_call t po val)))"
  using trav_set_traversable [of t "the po" val]
  by (auto simp: trav_call_def split: sum.splits prod.splits option.splits)

lemma trav_init_traversable:
  "trav_init loads v d flt = Inr t0 \<Longrightarrow> traversable (tvalue t0)"
proof -
  have r: "traversable w \<Longrightarrow> traversable (recursively_unwrap_value w)" for w
    by (cases w) simp_all
  assume "trav_init loads v d flt = Inr t0"
  then show ?thesis
    using r by (auto simp: trav_init_def split: sum.splits if_splits)
qed

lemma trav_init_raises:
  "(case v of PStr s \<Rightarrow> loads s | _ \<Rightarrow> Inr v) = Inr v1 \<Longrightarrow> \<not> traversable v1
   \<Longrightarrow> trav_init loads v d flt = Inl ValueError"
  by (simp add: trav_init_def)

text \<open>
  C10: the value a Traverser wraps is always a list or a dict. Construction returns a
  Traverser only for a container and raises ValueError when the resolved value is anything
  else; \<open>append\<close>, \<open>extend\<close>, \<open>_set\<close>, \<open>__call__\<close>, \<open>prune\<close>, \<open>__setitem__\<close> and
  \<open>__delitem__\<close> leave a container wrapped, whether they raise or not. On a wrapped
  value that is not a list, \<open>append\<close> replaces it with the new list \<open>[old, item]\<close> and
  \<open>extend\<close> with \<open>[old] + items\<close>.
\<close>

theorem wrapped_value_is_container:
  "(trav_init loads v d flt = Inr t0 \<longrightarrow> traversable (tvalue t0))
   \<and> ((case v of PStr s \<Rightarrow> loads s | _ \<Rightarrow> Inr v) = Inr v1 \<and> \<not> traversable v1
        \<longrightarrow> trav_init loads v d flt = Inl ValueError)
   \<and> (traversable (tvalue t) \<longrightarrow>
         traversable (tvalue (trav_append t x))
         \<and> traversable (tvalue (trav_extend t x))
         \<and> traversable (tvalue (fst (trav_set t path val)))
         \<and> traversable (tvalue (fst (trav_call t po val)))
         \<and> traversable (tvalue (trav_prune t fo))
         \<and> (trav_setitem t key x = Inr t1 \<longrightarrow> traversable (tvalue t1))
         \<and> (trav_delitem t key = Inr t2 \<longrightarrow> traversable (tvalue t2)))
   \<and> (\<not> is_list (tvalue t) \<longrightarrow>
         tvalue (trav_append t x) = PList [tvalue t, unwrap_value x]
         \<and> tvalue (trav_extend t x) = PList ([tvalue t] @ ensure_list (unwrap_value x)))"
  using trav_init_traversable [of loads v d flt t0] trav_init_raises [of v loads v1 d flt]
    trav_append_list [of t x] trav_extend_list [of t x] trav_set_traversable [of t path val]
    trav_call_traversable [of t po val] trav_prune_traversable [of t fo]
    trav_setitem_traversable [of t key x t1] trav_delitem_traversable [of t key t2]
    trav_append_replace [of t x] trav_extend_replace [of t x]
  by blast

theorem wrapped_value_is_container_witness:
  "traversable (tvalue \<lparr>tvalue = PDict [(''k'', PInt 1)], tfilter = None\<rparr>)
   \<and> \<not> is_list (tvalue \<lparr>tvalue = PDict [(''k'', PInt 1)], tfilter = None\<rparr>)
   \<and> tvalue (trav_append \<lparr>tvalue = PDict [(''k'', PInt 1)], tfilter = None\<rparr> (Plain (PInt 2)))
       = PList [PDict [(''k'', PInt 1)], PInt 2]
   \<and> tvalue (trav_extend \<lparr>tvalue = PDict [(''k'', PInt 1)], tfilter = None\<rparr> (Plain (PInt 2)))
       = PList [PDict [(''k'', PInt 1)], PInt 2]
   \<and> traversable (tvalue (fst (trav_set \<lparr>tvalue = PDict [(''k'', PInt 1)], tfilter = None\<rparr>
                                  ''k.0'' (PInt 3))))
   \<and> trav_setitem \<lparr>tvalue = PDict [(''k'', PInt 1)], tfilter = None\<rparr> (KStr ''j'') (Plain PNone)
       = Inr \<lparr>tvalue = PDict [(''k'', PInt 1), (''j'', PNone)], tfilter = None\<rparr>
   \<and> traversable (tvalue \<lparr>tvalue = PDict [(''k'', PInt 1), (''j'', PNone)], tfilter = None\<rparr>)
   \<and> trav_delitem \<lparr>tvalue = PDict [(''k'', PInt 1)], tfilter = None\<rparr> (KStr ''k'')
       = Inr \<lparr>tvalue = PDict [], tfilter = None\<rparr>
   \<and> trav_init (\<lambda>s. Inl ValueError) (PList []) True None = Inr \<lparr>tvalue = PList [], tfilter = None\<rparr>
   \<and> trav_init (\<lambda>s. Inl ValueError) (PInt 5) True None = Inl ValueError"
proof -
  let ?t = "\<lparr>tvalue = PDict [(''k'', PInt 1)], tfilter = None\<rparr>"
  let ?t1 = "\<lparr>tvalue = PDict [(''k'', PInt 1), (''j'', PNone)], tfilter = None\<rparr>"
  let ?t2 = "\<lparr>tvalue = PDict [], tfilter = None\<rparr>"
  let ?loads = "\<lambda>s :: string. Inl ValueError :: pyerr + pyval"
  have h1: "traversable (tvalue ?t)" and h2: "\<not> is_list (tvalue ?t)"
    by simp_all
  have h3: "trav_setitem ?t (KStr ''j'') (Plain PNone) = Inr ?t1"
    by code_simp
  have h4: "trav_delitem ?t (KStr ''k'') = Inr ?t2"
    by code_simp
  have h5: "trav_init ?loads (PList []) True None = Inr \<lparr>tvalue = PList [], tfilter = None\<rparr>"
    by (simp add: trav_init_def)
  have h6: "(case PInt 5 of PStr s \<Rightarrow> ?loads s | _ \<Rightarrow> Inr (PInt 5)) = Inr (PInt 5)"
      "\<not> traversable (PInt 5)"
    by simp_all
  note a = wrapped_value_is_container [where t = ?t and x = "Plain (PInt 2)" and path = "''k.0''"
      and val = "PInt 3" and loads = ?loads
      and v = "PInt 5" and ?v1.0 = "PInt 5" and d = True and flt = None]
  note b = wrapped_value_is_container [where t = ?t and key = "KStr ''k''" and ?t2.0 = ?t2]
  note c = wrapped_value_is_container [where t = ?t and x = "Plain PNone" and key = "KStr ''j''"
      and ?t1.0 = ?t1]
  from a h1 have s: "traversable (tvalue (fst (trav_set ?t ''k.0'' (PInt 3))))"
    by blast
  from c h1 h3 have s1: "traversable (tvalue ?t1)"
    by blast
  from b h1 h4 have s2: "traversable (tvalue ?t2)"
    by blast
  from a h2 have ap: "tvalue (trav_append ?t (Plain (PInt 2))) = PList [tvalue ?t, unwrap_value (Plain (PInt 2))]"
    and ex: "tvalue (trav_extend ?t (Plain (PInt 2)))
             = PList ([tvalue ?t] @ ensure_list (unwrap_value (Plain (PInt 2))))"
    by blast+
  from a h6 have i: "trav_init ?loads (PInt 5) True None = Inl ValueError"
    by blast
  from ap have ap': "tvalue (trav_append ?t (Plain (PInt 2))) = PList [PDict [(''k'', PInt 1)], PInt 2]"
    by (simp add: unwrap_value_def)
  from ex have ex': "tvalue (trav_extend ?t (Plain (PInt 2))) = PList [PDict [(''k'', PInt 1)], PInt 2]"
    by (simp add: unwrap_value_def)
  from h1 h2 ap' ex' s h3 s1 h4 h5 i show ?thesis
    by (intro conjI)
qed

end
